theory Spec2Isabelle
  imports Main "HOL-Library.Word"
begin

unbundle bit_operations_syntax

section \<open>Data model (mml\_compiler.h)\<close>

text \<open>
  The enum \<open>MML_Error\<close> and the two structs of the header. C \<open>int\<close> fields are
  \<open>int\<close>, \<open>size_t\<close> fields are \<open>nat\<close>, bytes are \<open>8 word\<close>. The output buffer
  \<open>out\<close> is a pointer in C: here it is the memory behind that pointer, one cell
  per offset, of which the program owns the offsets below \<open>out_cap\<close>. The array
  \<open>loops\<close> is likewise one cell per index, of which the indices 0 to 3 exist in C.
  The text buffer \<open>error_msg\<close> is left out: it is only written, by \<open>set_error\<close>,
  and never read by the compiler.
\<close>

datatype MML_Error =
    MML_OK
  | MML_ERR_SYNTAX
  | MML_ERR_FUNC_RANGE
  | MML_ERR_OCTAVE
  | MML_ERR_OUT_OF_NEST
  | MML_ERR_CLOSE_NEST
  | MML_ERR_DUP_EXIT
  | MML_ERR_RETURN_IN_NEST
  | MML_ERR_NOTE_OVERFLOW
  | MML_ERR_INTERNAL

record MML_LoopState =
  loop_start :: nat
  exit_mark :: nat
  saved_l_len96 :: int
  saved_lp_len96 :: int
  saved_octave :: int
  saved_octave_last :: int

record MML_Compiler =
  src :: string
  pos :: nat
  len :: nat
  line :: int
  col :: int
  out :: "nat \<Rightarrow> 8 word"
  out_len :: nat
  out_cap :: nat
  nest_depth :: int
  l_len96 :: int
  lp_len96 :: int
  octave :: int
  octave_last :: int
  key_shift :: int
  loops :: "int \<Rightarrow> MML_LoopState"
  error :: MML_Error
  error_col :: int

definition LOOP_NOEXIT :: nat where
  "LOOP_NOEXIT = 0"

definition MML_MAX_NEST :: int where
  "MML_MAX_NEST = 4"

definition NOERROR :: int where
  "NOERROR = - 1"

definition INT_MAX :: int where
  "INT_MAX = 2147483647"

text \<open>The bytes a channel has produced so far: \<open>out[0 .. out_len - 1]\<close>.\<close>

definition emitted :: "MML_Compiler \<Rightarrow> 8 word list" where
  "emitted c = map (out c) [0 ..< out_len c]"

section \<open>Scanner\<close>

text \<open>
  \<open>peek\<close> and \<open>get\<close> return an \<open>int\<close> in C, \<open>-1\<close> at the end of the line:
  here \<open>None\<close>. The C library predicates are those of the C locale.
\<close>

definition peek :: "MML_Compiler \<Rightarrow> char option" where
  "peek c = (if pos c \<ge> len c then None else Some (src c ! pos c))"

definition get :: "MML_Compiler \<Rightarrow> char option \<times> MML_Compiler" where
  "get c =
     (if pos c \<ge> len c then (None, c)
      else let ch = src c ! pos c;
               c1 = c\<lparr>pos := pos c + 1\<rparr>
           in if ch = CHR 0x0A then (Some ch, c1)
              else (Some ch, c1\<lparr>col := col c1 + 1\<rparr>))"

definition isdigit :: "char option \<Rightarrow> bool" where
  "isdigit ch = (case ch of None \<Rightarrow> False
                 | Some x \<Rightarrow> 48 \<le> (of_char x :: nat) \<and> (of_char x :: nat) \<le> 57)"

definition digit_val :: "char option \<Rightarrow> nat" where
  "digit_val ch = (case ch of None \<Rightarrow> 0 | Some x \<Rightarrow> of_char x - 48)"

definition toupper :: "char \<Rightarrow> char" where
  "toupper x =
     (case map_of (zip ''abcdefghijklmnopqrstuvwxyz'' ''ABCDEFGHIJKLMNOPQRSTUVWXYZ'') x of
        None \<Rightarrow> x
      | Some u \<Rightarrow> u)"

function skip_space :: "MML_Compiler \<Rightarrow> MML_Compiler" where
  "skip_space c =
     (if peek c = Some CHR '' '' \<or> peek c = Some CHR 0x09 \<or> peek c = Some CHR 0x0D
      then skip_space (snd (get c)) else c)"
  by pat_completeness auto
termination
  by (relation "measure (\<lambda>c. len c - pos c)")
     (auto simp: peek_def get_def Let_def split: if_splits)

declare skip_space.simps [simp del]

text \<open>The scanner only moves forward, and never changes the length of the line.\<close>

lemma len_get [simp]: "len (snd (get c)) = len c"
  by (simp add: get_def Let_def)

lemma pos_get [simp]: "n \<le> pos c \<Longrightarrow> n \<le> pos (snd (get c))"
  by (simp add: get_def Let_def)

lemma pos_get_Some: "peek c = Some x \<Longrightarrow> pos (snd (get c)) = pos c + 1"
  by (simp add: peek_def get_def Let_def split: if_splits)

lemma peek_Some_less: "peek c = Some x \<Longrightarrow> pos c < len c"
  by (simp add: peek_def split: if_splits)

lemma isdigit_less: "isdigit (peek c) \<Longrightarrow> pos c < len c"
  by (simp add: isdigit_def peek_def split: if_splits option.splits)

lemma len_skip_space [simp]: "len (skip_space c) = len c"
  by (induction c rule: skip_space.induct) (simp add: skip_space.simps)

lemma pos_skip_space [simp]: "n \<le> pos c \<Longrightarrow> n \<le> pos (skip_space c)"
  by (induction c rule: skip_space.induct) (simp add: skip_space.simps)

text \<open>
  The digit loop of \<open>parse_unsigned\<close>: \<open>v\<close> is a \<open>long\<close>, clamped to \<open>INT_MAX\<close>
  after every digit, so it never leaves the range of a 64-bit \<open>long\<close>.
\<close>

function unsigned_digits :: "int \<Rightarrow> MML_Compiler \<Rightarrow> int \<times> MML_Compiler" where
  "unsigned_digits v c =
     (if isdigit (peek c)
      then let v1 = v * 10 + int (digit_val (peek c));
               v2 = (if v1 > INT_MAX then INT_MAX else v1)
           in unsigned_digits v2 (snd (get c))
      else (v, c))"
  by pat_completeness auto
termination
  by (relation "measure (\<lambda>(v, c). len c - pos c)")
     (auto simp: peek_def get_def isdigit_def Let_def split: if_splits)

declare unsigned_digits.simps [simp del]

text \<open>\<open>None\<close> is the C return value 0 (no digit, \<open>*out\<close> untouched).\<close>

definition parse_unsigned :: "MML_Compiler \<Rightarrow> int option \<times> MML_Compiler" where
  "parse_unsigned c =
     (let c1 = skip_space c
      in if \<not> isdigit (peek c1) then (None, c1)
         else case unsigned_digits 0 c1 of (v, c2) \<Rightarrow> (Some v, c2))"

definition parse_signed :: "MML_Compiler \<Rightarrow> int option \<times> MML_Compiler" where
  "parse_signed c =
     (let c1 = skip_space c;
          ch = peek c1;
          sign = (if ch = Some CHR ''-'' then - 1 else 1 :: int);
          c2 = (if ch = Some CHR ''+'' \<or> ch = Some CHR ''-'' then snd (get c1) else c1)
      in case parse_unsigned c2 of
           (None, c3) \<Rightarrow> (None, c3)
         | (Some v, c3) \<Rightarrow> (Some (sign * v), c3))"

definition sign_byte :: "int \<Rightarrow> int" where
  "sign_byte v = (if v \<ge> 0 then v else 0x80 OR (- v))"

section \<open>Errors and the emitter\<close>

text \<open>
  Every caller passes a message, so the branch \<open>if (msg)\<close> of \<open>set_error\<close> is
  always taken.
\<close>

definition set_error :: "MML_Compiler \<Rightarrow> MML_Error \<Rightarrow> MML_Compiler" where
  "set_error c e =
     (if error c = MML_OK
      then c\<lparr>error := e,
             error_col := (if error_col c = NOERROR then col c else error_col c)\<rparr>
      else c)"

definition ensure_space :: "MML_Compiler \<Rightarrow> nat \<Rightarrow> bool \<times> MML_Compiler" where
  "ensure_space c need =
     (if out_len c + need > out_cap c
      then (False, set_error (c\<lparr>error_col := col c\<rparr>) MML_ERR_INTERNAL)
      else (True, c))"

definition emit_byte :: "MML_Compiler \<Rightarrow> 8 word \<Rightarrow> MML_Compiler" where
  "emit_byte c v =
     (case ensure_space c 1 of
        (False, c1) \<Rightarrow> c1
      | (True, c1) \<Rightarrow> c1\<lparr>out := (out c1)(out_len c1 := v), out_len := out_len c1 + 1\<rparr>)"

definition emit_word_le :: "MML_Compiler \<Rightarrow> 16 word \<Rightarrow> MML_Compiler" where
  "emit_word_le c v =
     (case ensure_space c 2 of
        (False, c1) \<Rightarrow> c1
      | (True, c1) \<Rightarrow>
          c1\<lparr>out := (out c1)(out_len c1 := ucast (v AND 0xFF),
                              out_len c1 + 1 := ucast (drop_bit 8 v)),
             out_len := out_len c1 + 2\<rparr>)"

text \<open>
  The number parsers move the scanner forward only; recording an error and emitting
  bytes leave it where it is.
\<close>

lemma len_unsigned_digits [simp]: "len (snd (unsigned_digits v c)) = len c"
  by (induction v c rule: unsigned_digits.induct) (simp add: unsigned_digits.simps Let_def)

lemma pos_unsigned_digits [simp]: "n \<le> pos c \<Longrightarrow> n \<le> pos (snd (unsigned_digits v c))"
  by (induction v c rule: unsigned_digits.induct) (simp add: unsigned_digits.simps Let_def)

lemma len_parse_unsigned [simp]: "len (snd (parse_unsigned c)) = len c"
  by (simp add: parse_unsigned_def Let_def split_beta)

lemma pos_parse_unsigned [simp]: "n \<le> pos c \<Longrightarrow> n \<le> pos (snd (parse_unsigned c))"
  by (simp add: parse_unsigned_def Let_def split_beta)

lemma len_parse_signed [simp]: "len (snd (parse_signed c)) = len c"
  by (simp add: parse_signed_def Let_def split_beta split: option.splits)

lemma pos_parse_signed [simp]: "n \<le> pos c \<Longrightarrow> n \<le> pos (snd (parse_signed c))"
  by (simp add: parse_signed_def Let_def split_beta split: option.splits)

lemma len_set_error [simp]: "len (set_error c e) = len c"
  by (simp add: set_error_def)

lemma pos_set_error [simp]: "pos (set_error c e) = pos c"
  by (simp add: set_error_def)

lemma len_emit_byte [simp]: "len (emit_byte c v) = len c"
  by (simp add: emit_byte_def ensure_space_def)

lemma pos_emit_byte [simp]: "pos (emit_byte c v) = pos c"
  by (simp add: emit_byte_def ensure_space_def)

lemma len_emit_word_le [simp]: "len (emit_word_le c v) = len c"
  by (simp add: emit_word_le_def ensure_space_def)

lemma pos_emit_word_le [simp]: "pos (emit_word_le c v) = pos c"
  by (simp add: emit_word_le_def ensure_space_def)

section \<open>Notes and lengths\<close>

text \<open>The caller has already upper-cased the name; \<open>-1\<close> is \<open>None\<close>.\<close>

definition notename_to_tonenum :: "char \<Rightarrow> int option" where
  "notename_to_tonenum name =
     (let u = toupper name
      in if u = CHR ''C'' then Some 1
         else if u = CHR ''D'' then Some 3
         else if u = CHR ''E'' then Some 5
         else if u = CHR ''F'' then Some 6
         else if u = CHR ''G'' then Some 8
         else if u = CHR ''A'' then Some 10
         else if u = CHR ''B'' then Some 12
         else None)"

definition PARA_F_MINUS :: "8 word" where "PARA_F_MINUS = 0x80"
definition PARA_F_PLUS :: "8 word" where "PARA_F_PLUS = 0x40"
definition PARA_F_PERCENT :: "8 word" where "PARA_F_PERCENT = 0x20"
definition PARA_F_TIE :: "8 word" where "PARA_F_TIE = 0x10"
definition PARA_F_NOVALUE :: "8 word" where "PARA_F_NOVALUE = 0x01"
definition UINT16_MAX :: "16 word" where "UINT16_MAX = 0xFFFF"

text \<open>
  The digit loop of \<open>parse_para\<close>. \<open>val\<close> is a \<open>uint16_t\<close>: the product and the sum
  are computed in 32 bits and the assignment truncates them to 16 bits, before the
  comparison with \<open>UINT16_MAX\<close>.
\<close>

function para_digits :: "16 word \<Rightarrow> MML_Compiler \<Rightarrow> 16 word \<times> MML_Compiler" where
  "para_digits val c =
     (if \<not> isdigit (peek c) then (val, c)
      else let digit = (of_nat (digit_val (peek c)) :: 32 word);
               val1 = (ucast ((ucast val :: 32 word) * 10 + digit) :: 16 word);
               val2 = (if val1 \<ge> UINT16_MAX then UINT16_MAX else val1)
           in para_digits val2 (snd (get c)))"
  by pat_completeness auto
termination
  by (relation "measure (\<lambda>(v, c). len c - pos c)")
     (auto simp: peek_def get_def isdigit_def Let_def split: if_splits)

declare para_digits.simps [simp del]

lemma len_para_digits [simp]: "len (snd (para_digits v c)) = len c"
  by (induction v c rule: para_digits.induct) (simp add: para_digits.simps Let_def)

lemma pos_para_digits [simp]: "n \<le> pos c \<Longrightarrow> n \<le> pos (snd (para_digits v c))"
  by (induction v c rule: para_digits.induct) (simp add: para_digits.simps Let_def)

definition parse_para :: "MML_Compiler \<Rightarrow> 8 word \<times> 16 word \<times> MML_Compiler" where
  "parse_para c =
     (let c1 = skip_space c;
          (flag1, c2) = (if peek c1 = Some CHR ''%''
                         then (PARA_F_PERCENT, skip_space (snd (get c1)))
                         else (0, c1));
          ch = peek c2;
          (flag2, c3) = (if ch = Some CHR ''-''
                         then (flag1 OR PARA_F_MINUS, skip_space (snd (get c2)))
                         else if ch = Some CHR ''+''
                         then (flag1 OR PARA_F_PLUS, skip_space (snd (get c2)))
                         else (flag1, c2))
      in if \<not> isdigit (peek c3) then (flag2 OR PARA_F_NOVALUE, 0, c3)
         else case para_digits 0 c3 of (val, c4) \<Rightarrow> (flag2, val, c4))"

lemma len_parse_para [simp]: "len (snd (snd (parse_para c))) = len c"
  by (simp add: parse_para_def Let_def split_beta)

lemma pos_parse_para [simp]: "n \<le> pos c \<Longrightarrow> n \<le> pos (snd (snd (parse_para c)))"
  by (simp add: parse_para_def Let_def split_beta)

text \<open>
  \<open>apply_dots\<close>: the loop runs \<open>dots\<close> times unless a half is odd; \<open>error_col\<close> is
  advanced once per dot taken.
\<close>

fun dots_loop :: "nat \<Rightarrow> int \<Rightarrow> int \<Rightarrow> MML_Compiler \<Rightarrow> int option \<times> MML_Compiler" where
  "dots_loop 0 len96 half c = (Some len96, c)"
| "dots_loop (Suc i) len96 half c =
     (if half mod 2 \<noteq> 0 then (None, c)
      else let half1 = half div 2
           in dots_loop i (len96 + half1) half1 (c\<lparr>error_col := error_col c + 1\<rparr>))"

definition apply_dots :: "MML_Compiler \<Rightarrow> int \<Rightarrow> nat \<Rightarrow> int option \<times> MML_Compiler" where
  "apply_dots c base_len96 dots =
     (case dots_loop dots base_len96 base_len96 c of
        (None, c1) \<Rightarrow> (None, c1)
      | (Some len96, c1) \<Rightarrow>
          if len96 \<le> 0 \<or> len96 > 32767 then (None, c1) else (Some len96, c1))"

lemma len_dots_loop [simp]: "len (snd (dots_loop i l h c)) = len c"
  by (induction i l h c rule: dots_loop.induct) (simp_all add: Let_def)

lemma pos_dots_loop [simp]: "pos (snd (dots_loop i l h c)) = pos c"
  by (induction i l h c rule: dots_loop.induct) (simp_all add: Let_def)

lemma len_apply_dots [simp]: "len (snd (apply_dots c b d)) = len c"
  by (simp add: apply_dots_def split_beta split: option.splits)

lemma pos_apply_dots [simp]: "pos (snd (apply_dots c b d)) = pos c"
  by (simp add: apply_dots_def split_beta split: option.splits)

text \<open>
  \<open>parse_length_96\<close> in three steps, in the order of the C function: the base length
  from the PARA operand, the dots, and the loop over \<open>^\<close>, which calls
  \<open>parse_length_96\<close> again. \<open>None\<close> is the return value 0; on success the result is
  the pair of \<open>*len96\<close> and \<open>*flagp\<close>.
\<close>

definition length_base :: "MML_Compiler \<Rightarrow> (int \<times> 8 word) option \<times> MML_Compiler" where
  "length_base c =
     (case parse_para c of (flag, val, c1) \<Rightarrow>
        let c2 = c1\<lparr>error_col := col c1\<rparr>
        in if flag AND PARA_F_PERCENT \<noteq> 0
           then if flag AND PARA_F_NOVALUE \<noteq> 0
                then (None, set_error c2 MML_ERR_FUNC_RANGE)
                else if val < 1 \<or> val > 255
                then (None, set_error c2 MML_ERR_FUNC_RANGE)
                else (Some (uint val, flag), c2)
           else if flag AND PARA_F_NOVALUE \<noteq> 0
                then (Some (l_len96 c2, flag), c2)
                else if val \<in> {1, 2, 3, 4, 6, 8, 12, 16, 24, 32, 48, 96}
                then (Some (96 div uint val, flag), c2)
                else (None, set_error c2 MML_ERR_FUNC_RANGE))"

function count_dots :: "nat \<Rightarrow> MML_Compiler \<Rightarrow> nat \<times> MML_Compiler" where
  "count_dots dots c =
     (let c1 = skip_space c
      in if peek c1 = Some CHR ''.'' then count_dots (dots + 1) (snd (get c1))
         else (dots, c1))"
  by pat_completeness auto
termination
proof (relation "measure (\<lambda>(d, c). len c - pos c)")
  fix dots :: nat and c c1 :: MML_Compiler
  assume c1: "c1 = skip_space c" and pk: "peek c1 = Some CHR ''.''"
  have "pos c \<le> pos c1" "len c1 = len c"
    using c1 by simp_all
  with peek_Some_less [OF pk] pos_get_Some [OF pk]
  show "((dots + 1, snd (get c1)), (dots, c)) \<in> measure (\<lambda>(d, c). len c - pos c)"
    by simp
qed simp

declare count_dots.simps [simp del]

lemma len_count_dots [simp]: "len (snd (count_dots d c)) = len c"
  by (induction d c rule: count_dots.induct) (simp add: count_dots.simps Let_def)

lemma pos_count_dots [simp]: "n \<le> pos c \<Longrightarrow> n \<le> pos (snd (count_dots d c))"
  by (induction d c rule: count_dots.induct) (simp add: count_dots.simps Let_def)

definition length_dotted :: "MML_Compiler \<Rightarrow> (int \<times> 8 word) option \<times> MML_Compiler" where
  "length_dotted c =
     (case length_base c of
        (None, c1) \<Rightarrow> (None, c1)
      | (Some (base_len, flag), c1) \<Rightarrow>
          (case count_dots 0 (c1\<lparr>error_col := col c1\<rparr>) of (dots, c2) \<Rightarrow>
             if dots > 0
             then (case apply_dots (c2\<lparr>error_col := error_col c2 + 1\<rparr>) base_len dots of
                     (None, c3) \<Rightarrow> (None, set_error c3 MML_ERR_FUNC_RANGE)
                   | (Some len96, c3) \<Rightarrow> (Some (len96, flag), c3\<lparr>error_col := NOERROR\<rparr>))
             else (Some (base_len, flag), c2\<lparr>error_col := NOERROR\<rparr>)))"

lemma len_length_base [simp]: "len (snd (length_base c)) = len c"
  by (simp add: length_base_def Let_def split_beta)

lemma pos_length_base [simp]: "n \<le> pos c \<Longrightarrow> n \<le> pos (snd (length_base c))"
  by (simp add: length_base_def Let_def split_beta)

lemma len_length_dotted [simp]: "len (snd (length_dotted c)) = len c"
  by (simp add: length_dotted_def Let_def split_beta split: option.splits)

lemma pos_length_dotted [simp]: "n \<le> pos c \<Longrightarrow> n \<le> pos (snd (length_dotted c))"
  by (simp add: length_dotted_def Let_def split_beta split: option.splits)

function parse_length_96 :: "MML_Compiler \<Rightarrow> (int \<times> 8 word) option \<times> MML_Compiler"
  and concat_lengths :: "int \<Rightarrow> 8 word \<Rightarrow> MML_Compiler \<Rightarrow> (int \<times> 8 word) option \<times> MML_Compiler"
where
  "parse_length_96 c =
     (case length_dotted c of
        (None, c1) \<Rightarrow> (None, c1)
      | (Some (base_len, flag), c1) \<Rightarrow> concat_lengths base_len flag c1)"
| "concat_lengths base_len flag c =
     (let c1 = skip_space c
      in if peek c1 \<noteq> Some CHR ''^'' then (Some (base_len, flag), c1)
         else case parse_length_96 (snd (get c1)) of
                (None, c2) \<Rightarrow> (None, c2)
              | (Some (add_len, flag1), c2) \<Rightarrow> concat_lengths (base_len + add_len) flag c2)"
  by pat_completeness auto


lemma parse_length_96_advances:
  "parse_length_96_concat_lengths_dom (Inl c) \<Longrightarrow>
     len (snd (parse_length_96 c)) = len c \<and> pos c \<le> pos (snd (parse_length_96 c))"
  "parse_length_96_concat_lengths_dom (Inr (base_len, flag, c)) \<Longrightarrow>
     len (snd (concat_lengths base_len flag c)) = len c \<and>
     pos c \<le> pos (snd (concat_lengths base_len flag c))"
proof (induct rule: parse_length_96_concat_lengths.pinduct)
  case (1 c)
  show ?case
  proof (cases "length_dotted c")
    case (Pair r c1)
    have c1: "len c1 = len c" "pos c \<le> pos c1"
      using len_length_dotted [of c] pos_length_dotted [of "pos c" c] Pair by simp_all
    show ?thesis
    proof (cases r)
      case None
      with Pair c1 show ?thesis
        by (simp add: parse_length_96.psimps [OF "1.hyps"(1)])
    next
      case (Some bf)
      obtain b f where bf: "bf = (b, f)" by (cases bf)
      have ih: "len (snd (concat_lengths b f c1)) = len c1 \<and>
                pos c1 \<le> pos (snd (concat_lengths b f c1))"
        by (rule "1.hyps"(2) [of r c1 bf b f]) (simp_all add: Pair Some bf)
      have "parse_length_96 c = concat_lengths b f c1"
        by (simp add: parse_length_96.psimps [OF "1.hyps"(1)] Pair Some bf)
      with ih c1 show ?thesis
        by simp
    qed
  qed
next
  case (2 base_len flag c)
  define c1 where "c1 = skip_space c"
  have c1: "len c1 = len c" "pos c \<le> pos c1"
    by (simp_all add: c1_def)
  show ?case
  proof (cases "peek c1 = Some CHR ''^''")
    case False
    with c1 show ?thesis
      by (simp add: concat_lengths.psimps [OF "2.hyps"(1)] c1_def [symmetric])
  next
    case True
    have g: "len (snd (get c1)) = len c" "pos c \<le> pos (snd (get c1))"
      using c1 by simp_all
    have "len (snd (parse_length_96 (snd (get c1)))) = len (snd (get c1)) \<and>
          pos (snd (get c1)) \<le> pos (snd (parse_length_96 (snd (get c1))))"
      by (rule "2.hyps"(2) [of c1]) (simp_all add: c1_def [symmetric] True)
    with g have inner: "len (snd (parse_length_96 (snd (get c1)))) = len c"
                "pos c \<le> pos (snd (parse_length_96 (snd (get c1))))"
      by linarith+
    show ?thesis
    proof (cases "parse_length_96 (snd (get c1))")
      case (Pair r c2)
      show ?thesis
      proof (cases r)
        case None
        with Pair inner True show ?thesis
          by (simp add: concat_lengths.psimps [OF "2.hyps"(1)] c1_def [symmetric])
      next
        case (Some af)
        obtain a f1 where af: "af = (a, f1)" by (cases af)
        have ih: "len (snd (concat_lengths (base_len + a) flag c2)) = len c2 \<and>
                  pos c2 \<le> pos (snd (concat_lengths (base_len + a) flag c2))"
          by (rule "2.hyps"(3) [of c1 r c2 af a f1])
             (simp_all add: c1_def [symmetric] True Pair Some af)
        have "concat_lengths base_len flag c = concat_lengths (base_len + a) flag c2"
          by (simp add: concat_lengths.psimps [OF "2.hyps"(1)] c1_def [symmetric]
                        True Pair Some af)
        with ih inner Pair show ?thesis
          by simp
      qed
    qed
  qed
qed

lemma parse_length_96_total: "All parse_length_96_concat_lengths_dom"
proof (relation "measure (\<lambda>x. case x of
                     Inl c \<Rightarrow> 2 * (len c - pos c) + 1
                   | Inr (b, f, c) \<Rightarrow> 2 * (len c - pos c))")
  show "wf (measure (\<lambda>x. case x of
                     Inl c \<Rightarrow> 2 * (len c - pos c) + 1
                   | Inr (b, f, c) \<Rightarrow> 2 * (len c - pos c)))"
    by simp
next
  fix c y :: MML_Compiler and x :: "(int \<times> 8 word) option" and x2 :: "int \<times> 8 word"
    and xa :: int and ya :: "8 word"
  assume "(x, y) = length_dotted c"
  then have "len y = len c" "pos c \<le> pos y"
    using len_length_dotted [of c] pos_length_dotted [of "pos c" c]
    by (simp_all add: prod_eq_iff)
  then show "(Inr (xa, ya, y), Inl c) \<in> measure (\<lambda>x. case x of
                     Inl c \<Rightarrow> 2 * (len c - pos c) + 1
                   | Inr (b, f, c) \<Rightarrow> 2 * (len c - pos c))"
    by simp
next
  fix base_len :: int and flag :: "8 word" and c x :: MML_Compiler
  assume x: "x = skip_space c" and pk: "\<not> peek x \<noteq> Some CHR ''^''"
  have "len x = len c" "pos c \<le> pos x" using x by simp_all
  moreover have "pos x < len x" "pos (snd (get x)) = pos x + 1"
    using pk peek_Some_less [of x] pos_get_Some [of x] by simp_all
  ultimately show "(Inl (snd (get x)), Inr (base_len, flag, c)) \<in> measure (\<lambda>x. case x of
                     Inl c \<Rightarrow> 2 * (len c - pos c) + 1
                   | Inr (b, f, c) \<Rightarrow> 2 * (len c - pos c))"
    by simp
next
  fix base_len xb :: int and flag ya :: "8 word" and c x y :: MML_Compiler
    and xa :: "(int \<times> 8 word) option" and x2 :: "int \<times> 8 word"
  assume x: "x = skip_space c" and pk: "\<not> peek x \<noteq> Some CHR ''^''"
    and r: "(xa, y) = parse_length_96 (snd (get x))"
    and dom: "parse_length_96_concat_lengths_dom (Inl (snd (get x)))"
  have "len x = len c" "pos c \<le> pos x" using x by simp_all
  moreover have "pos x < len x" "pos (snd (get x)) = pos x + 1"
    using pk peek_Some_less [of x] pos_get_Some [of x] by simp_all
  moreover have "len y = len (snd (get x))" "pos (snd (get x)) \<le> pos y"
    using parse_length_96_advances(1) [OF dom] r by (simp_all add: prod_eq_iff)
  ultimately show "(Inr (base_len + xb, flag, y), Inr (base_len, flag, c)) \<in> measure (\<lambda>x. case x of
                     Inl c \<Rightarrow> 2 * (len c - pos c) + 1
                   | Inr (b, f, c) \<Rightarrow> 2 * (len c - pos c))"
    by simp
qed

termination parse_length_96
  using parse_length_96_total by blast

declare parse_length_96.simps [simp del] concat_lengths.simps [simp del]

lemma len_parse_length_96 [simp]: "len (snd (parse_length_96 c)) = len c"
  using parse_length_96_advances(1) [of c] parse_length_96_total by simp

lemma pos_parse_length_96 [simp]: "n \<le> pos c \<Longrightarrow> n \<le> pos (snd (parse_length_96 c))"
  using parse_length_96_advances(1) [of c] parse_length_96_total by simp

text \<open>
  The header byte of a note or rest. \<open>tie\<close> is used as a truth value only.
\<close>

definition make_note_header :: "MML_Compiler \<Rightarrow> int \<Rightarrow> int \<Rightarrow> bool \<Rightarrow> 8 word" where
  "make_note_header c tone len96 tie =
     (let header0 = push_bit 6 (if tie then 1 else 0 :: 8 word);
          header1 = (if len96 = l_len96 c then header0 OR push_bit 4 0x0
                     else if len96 = lp_len96 c then header0 OR push_bit 4 0x1
                     else if len96 \<le> 255 then header0 OR push_bit 4 0x2
                     else header0 OR push_bit 4 0x3)
      in header1 OR ((of_int tone :: 8 word) AND 0x0F))"

section \<open>Statements\<close>

definition set_octave :: "MML_Compiler \<Rightarrow> int \<Rightarrow> MML_Compiler" where
  "set_octave c n =
     (if n < 1 \<or> n > 8 then set_error c MML_ERR_OCTAVE else c\<lparr>octave := n\<rparr>)"

definition emit_octave :: "MML_Compiler \<Rightarrow> int \<Rightarrow> MML_Compiler" where
  "emit_octave c n =
     (if n < 1 \<or> n > 8 then set_error c MML_ERR_OCTAVE
      else (emit_byte c (0x80 + of_int n))\<lparr>octave_last := n\<rparr>)"

lemma len_set_octave [simp]: "len (set_octave c n) = len c"
  by (simp add: set_octave_def)

lemma pos_set_octave [simp]: "pos (set_octave c n) = pos c"
  by (simp add: set_octave_def)

lemma len_emit_octave [simp]: "len (emit_octave c n) = len c"
  by (simp add: emit_octave_def)

lemma pos_emit_octave [simp]: "pos (emit_octave c n) = pos c"
  by (simp add: emit_octave_def)

subsection \<open>Notes and rests\<close>

text \<open>
  \<open>compile_note\<close> in three steps, in the order of the C function: \<open>note_tone\<close> is
  the branch on \<open>R\<close> with the accidental and the transposition (it yields the tone
  and the octave to emit, or fails), then the length and the tie are read, and
  \<open>emit_note\<close> is the emission at the end.
\<close>

definition note_accidental :: "MML_Compiler \<Rightarrow> int \<Rightarrow> int \<times> MML_Compiler" where
  "note_accidental c tone0 =
     (let c1 = skip_space c;
          ch = peek c1;
          (tone1, c2) = (if ch = Some CHR ''#'' \<or> ch = Some CHR ''+''
                         then (tone0 + 1, snd (get c1))
                         else if ch = Some CHR ''-''
                         then (tone0 - 1, snd (get c1))
                         else (tone0, c1));
          tone2 = (if tone1 > 12 then 12 else tone1);
          tone3 = (if tone2 < 1 then 1 else tone2)
      in (tone3, c2))"

definition note_key_shift ::
  "MML_Compiler \<Rightarrow> int \<Rightarrow> int \<Rightarrow> (int \<times> int) option \<times> MML_Compiler" where
  "note_key_shift c tone octave0 =
     (if key_shift c \<noteq> 0
      then let tone1 = tone + key_shift c;
               (octave1, tone2) = (if tone1 > 12 then (octave0 + 1, tone1 - 12)
                                   else if tone1 < 1 then (octave0 - 1, tone1 + 12)
                                   else (octave0, tone1))
           in if octave1 < 1 \<or> octave1 > 8
              then (None, set_error c MML_ERR_NOTE_OVERFLOW)
              else (Some (tone2, octave1), c)
      else (Some (tone, octave0), c))"

definition note_tone ::
  "MML_Compiler \<Rightarrow> char \<Rightarrow> int \<Rightarrow> (int \<times> int) option \<times> MML_Compiler" where
  "note_tone c ch octave0 =
     (if ch = CHR ''R'' then (Some (0, octave0), c)
      else case notename_to_tonenum ch of
             None \<Rightarrow> (None, set_error c MML_ERR_SYNTAX)
           | Some tone0 \<Rightarrow>
               (case note_accidental c tone0 of (tone, c1) \<Rightarrow>
                  note_key_shift c1 tone octave0))"

definition emit_note :: "MML_Compiler \<Rightarrow> int \<Rightarrow> int \<Rightarrow> int \<Rightarrow> bool \<Rightarrow> MML_Compiler" where
  "emit_note c tone octave1 len96 tie =
     (let c1 = (if octave_last c \<noteq> octave1 then emit_octave c octave1 else c);
          onpu = make_note_header c1 tone len96 tie;
          c2 = emit_byte c1 onpu
      in if len96 \<noteq> l_len96 c2 \<and> len96 \<noteq> lp_len96 c2
         then if len96 \<le> 255 then emit_byte c2 (of_int len96)
              else emit_word_le c2 (of_int len96)
         else c2)"

definition compile_note :: "MML_Compiler \<Rightarrow> char \<Rightarrow> MML_Compiler" where
  "compile_note c note =
     (case note_tone (c\<lparr>error_col := col c\<rparr>) (toupper note) (octave c) of
        (None, c1) \<Rightarrow> c1
      | (Some (tone, octave1), c1) \<Rightarrow>
          (case parse_length_96 (c1\<lparr>error_col := NOERROR\<rparr>) of
             (None, c2) \<Rightarrow> c2
           | (Some (len96, flag), c2) \<Rightarrow>
               if flag AND PARA_F_PLUS \<noteq> 0 then set_error c2 MML_ERR_FUNC_RANGE
               else if flag AND PARA_F_MINUS \<noteq> 0 then set_error c2 MML_ERR_FUNC_RANGE
               else let c3 = skip_space c2;
                        (tie, c4) = (if peek c3 = Some CHR ''&''
                                     then (True, snd (get c3)) else (False, c3))
                    in emit_note c4 tone octave1 len96 tie))"

lemma len_note_accidental [simp]: "len (snd (note_accidental c t)) = len c"
  by (simp add: note_accidental_def Let_def split_beta)

lemma pos_note_accidental [simp]: "n \<le> pos c \<Longrightarrow> n \<le> pos (snd (note_accidental c t))"
  by (simp add: note_accidental_def Let_def split_beta)

lemma len_note_key_shift [simp]: "len (snd (note_key_shift c t oct)) = len c"
  by (simp add: note_key_shift_def Let_def split_beta)

lemma pos_note_key_shift [simp]: "pos (snd (note_key_shift c t oct)) = pos c"
  by (simp add: note_key_shift_def Let_def split_beta)

lemma len_note_tone [simp]: "len (snd (note_tone c ch oct)) = len c"
  by (simp add: note_tone_def split_beta split: option.splits)

lemma pos_note_tone [simp]: "n \<le> pos c \<Longrightarrow> n \<le> pos (snd (note_tone c ch oct))"
  by (simp add: note_tone_def split_beta split: option.splits)

lemma len_emit_note [simp]: "len (emit_note c t oct l tie) = len c"
  by (simp add: emit_note_def Let_def)

lemma pos_emit_note [simp]: "pos (emit_note c t oct l tie) = pos c"
  by (simp add: emit_note_def Let_def)

lemma len_compile_note [simp]: "len (compile_note c note) = len c"
  by (simp add: compile_note_def Let_def split_beta split: option.splits)

lemma pos_compile_note [simp]: "n \<le> pos c \<Longrightarrow> n \<le> pos (compile_note c note)"
  by (simp add: compile_note_def Let_def split_beta split: option.splits)

subsection \<open>Commands\<close>

text \<open>
  One definition per \<open>case\<close> of the \<open>switch\<close> in \<open>compile_command\<close>. The two loops
  that discard the rest of a line come first, then the comma that separates the
  operands of \<open>M\<close>, \<open>S\<close> and \<open>T\<close>.
\<close>

function discard_line :: "MML_Compiler \<Rightarrow> MML_Compiler" where
  "discard_line c =
     (case peek c of
        None \<Rightarrow> c
      | Some ch \<Rightarrow> if ch = CHR 0x0A then c else discard_line (snd (get c)))"
  by pat_completeness auto
termination
  by (relation "measure (\<lambda>c. len c - pos c)")
     (auto simp: peek_def get_def Let_def split: if_splits)

declare discard_line.simps [simp del]

lemma len_discard_line [simp]: "len (discard_line c) = len c"
  by (induction c rule: discard_line.induct)
     (simp add: discard_line.simps split: option.splits)

lemma pos_discard_line [simp]: "n \<le> pos c \<Longrightarrow> n \<le> pos (discard_line c)"
  by (induction c rule: discard_line.induct)
     (simp add: discard_line.simps split: option.splits)

definition expect_comma :: "MML_Compiler \<Rightarrow> bool \<times> MML_Compiler" where
  "expect_comma c =
     (let c1 = skip_space c
      in if peek c1 \<noteq> Some CHR '','' then (False, c1) else (True, snd (get c1)))"

lemma len_expect_comma [simp]: "len (snd (expect_comma c)) = len c"
  by (simp add: expect_comma_def Let_def)

lemma pos_expect_comma [simp]: "n \<le> pos c \<Longrightarrow> n \<le> pos (snd (expect_comma c))"
  by (simp add: expect_comma_def Let_def)

text \<open>\<open>O\<close>, \<open>>\<close> and \<open><\<close>: only the logical octave changes.\<close>

definition command_O :: "MML_Compiler \<Rightarrow> MML_Compiler" where
  "command_O c =
     (case parse_unsigned c of
        (None, c1) \<Rightarrow> set_error c1 MML_ERR_FUNC_RANGE
      | (Some v, c1) \<Rightarrow> set_octave c1 v)"

definition command_octave_up :: "MML_Compiler \<Rightarrow> MML_Compiler" where
  "command_octave_up c =
     (case parse_unsigned c of
        (None, c1) \<Rightarrow> (let c2 = c1\<lparr>error_col := col c1 - 1\<rparr> in set_octave c2 (octave c2 + 1))
      | (Some v, c1) \<Rightarrow> set_octave c1 (octave c1 + v))"

definition command_octave_down :: "MML_Compiler \<Rightarrow> MML_Compiler" where
  "command_octave_down c =
     (case parse_unsigned c of
        (None, c1) \<Rightarrow> (let c2 = c1\<lparr>error_col := col c1 - 1\<rparr> in set_octave c2 (octave c2 - 1))
      | (Some v, c1) \<Rightarrow> set_octave c1 (octave c1 - v))"

text \<open>\<open>V\<close>, \<open>(\<close>, \<open>)\<close>, \<open>I\<close>, \<open>J\<close>, \<open>N\<close>, \<open>P\<close>, \<open>Q\<close>.\<close>

definition command_V :: "MML_Compiler \<Rightarrow> MML_Compiler" where
  "command_V c =
     (case parse_unsigned c of
        (None, c1) \<Rightarrow> set_error c1 MML_ERR_FUNC_RANGE
      | (Some v, c1) \<Rightarrow>
          if v < 0 \<or> v > 15 then set_error c1 MML_ERR_FUNC_RANGE
          else emit_byte c1 (0x90 + of_int v))"

definition command_volume_up :: "MML_Compiler \<Rightarrow> MML_Compiler" where
  "command_volume_up c =
     (case parse_unsigned c of (r, c1) \<Rightarrow>
        let v = (case r of None \<Rightarrow> 1 | Some n \<Rightarrow> n)
        in if v < 1 \<or> v > 15 then set_error c1 MML_ERR_FUNC_RANGE
           else emit_byte c1 (0xB0 + of_int v))"

definition command_volume_down :: "MML_Compiler \<Rightarrow> MML_Compiler" where
  "command_volume_down c =
     (case parse_unsigned c of (r, c1) \<Rightarrow>
        let v = (case r of None \<Rightarrow> 1 | Some n \<Rightarrow> n)
        in if v < 1 \<or> v > 15 then set_error c1 MML_ERR_FUNC_RANGE
           else emit_byte c1 (0xA0 + of_int v))"

definition command_I :: "MML_Compiler \<Rightarrow> MML_Compiler" where
  "command_I c =
     (case parse_unsigned c of
        (None, c1) \<Rightarrow> set_error c1 MML_ERR_FUNC_RANGE
      | (Some v, c1) \<Rightarrow>
          if v < 0 \<or> v > 255 then set_error c1 MML_ERR_FUNC_RANGE
          else emit_byte (emit_byte c1 0xF4) (of_int v))"

definition command_J :: "MML_Compiler \<Rightarrow> MML_Compiler" where
  "command_J c =
     (if nest_depth c > 0
      then (set_error c MML_ERR_RETURN_IN_NEST)\<lparr>nest_depth := 0\<rparr>
      else emit_byte c 0xFE)"

definition command_N :: "MML_Compiler \<Rightarrow> MML_Compiler" where
  "command_N c = emit_byte c 0xF6"

definition command_P :: "MML_Compiler \<Rightarrow> MML_Compiler" where
  "command_P c =
     (case parse_unsigned c of
        (None, c1) \<Rightarrow> set_error c1 MML_ERR_FUNC_RANGE
      | (Some v, c1) \<Rightarrow>
          if v = 1 then emit_byte c1 0xED
          else if v = 2 then emit_byte c1 0xEE
          else if v = 3 then emit_byte c1 0xEF
          else set_error c1 MML_ERR_FUNC_RANGE)"

definition command_Q :: "MML_Compiler \<Rightarrow> MML_Compiler" where
  "command_Q c =
     (case parse_unsigned c of
        (None, c1) \<Rightarrow> set_error c1 MML_ERR_FUNC_RANGE
      | (Some v, c1) \<Rightarrow>
          if v < 0 \<or> v > 255 then set_error c1 MML_ERR_FUNC_RANGE
          else emit_byte (emit_byte c1 0xFA) (of_int v))"

text \<open>\<open>L\<close>: the default lengths; the operand is a length specification.\<close>

definition command_L :: "MML_Compiler \<Rightarrow> MML_Compiler" where
  "command_L c =
     (case parse_length_96 c of
        (None, c1) \<Rightarrow> c1
      | (Some (len96, flag), c1) \<Rightarrow>
          if flag AND PARA_F_NOVALUE \<noteq> 0 then set_error c1 MML_ERR_FUNC_RANGE
          else if flag AND PARA_F_MINUS \<noteq> 0 then set_error c1 MML_ERR_FUNC_RANGE
          else if len96 < 0 \<or> len96 > 255 then set_error c1 MML_ERR_FUNC_RANGE
          else let c2 = (if flag AND PARA_F_PLUS = 0
                         then emit_byte (c1\<lparr>l_len96 := len96\<rparr>) 0xF9
                         else emit_byte (c1\<lparr>lp_len96 := len96\<rparr>) 0xF7)
               in emit_byte c2 (of_int len96))"

lemma len_command_O [simp]: "len (command_O c) = len c"
  by (simp add: command_O_def split_beta split: option.splits)
lemma pos_command_O [simp]: "n \<le> pos c \<Longrightarrow> n \<le> pos (command_O c)"
  by (simp add: command_O_def split_beta split: option.splits)
lemma len_command_octave_up [simp]: "len (command_octave_up c) = len c"
  by (simp add: command_octave_up_def Let_def split_beta split: option.splits)
lemma pos_command_octave_up [simp]: "n \<le> pos c \<Longrightarrow> n \<le> pos (command_octave_up c)"
  by (simp add: command_octave_up_def Let_def split_beta split: option.splits)
lemma len_command_octave_down [simp]: "len (command_octave_down c) = len c"
  by (simp add: command_octave_down_def Let_def split_beta split: option.splits)
lemma pos_command_octave_down [simp]: "n \<le> pos c \<Longrightarrow> n \<le> pos (command_octave_down c)"
  by (simp add: command_octave_down_def Let_def split_beta split: option.splits)
lemma len_command_V [simp]: "len (command_V c) = len c"
  by (simp add: command_V_def split_beta split: option.splits)
lemma pos_command_V [simp]: "n \<le> pos c \<Longrightarrow> n \<le> pos (command_V c)"
  by (simp add: command_V_def split_beta split: option.splits)
lemma len_command_volume_up [simp]: "len (command_volume_up c) = len c"
  by (simp add: command_volume_up_def Let_def split_beta)
lemma pos_command_volume_up [simp]: "n \<le> pos c \<Longrightarrow> n \<le> pos (command_volume_up c)"
  by (simp add: command_volume_up_def Let_def split_beta)
lemma len_command_volume_down [simp]: "len (command_volume_down c) = len c"
  by (simp add: command_volume_down_def Let_def split_beta)
lemma pos_command_volume_down [simp]: "n \<le> pos c \<Longrightarrow> n \<le> pos (command_volume_down c)"
  by (simp add: command_volume_down_def Let_def split_beta)
lemma len_command_I [simp]: "len (command_I c) = len c"
  by (simp add: command_I_def split_beta split: option.splits)
lemma pos_command_I [simp]: "n \<le> pos c \<Longrightarrow> n \<le> pos (command_I c)"
  by (simp add: command_I_def split_beta split: option.splits)
lemma len_command_J [simp]: "len (command_J c) = len c"
  by (simp add: command_J_def)
lemma pos_command_J [simp]: "pos (command_J c) = pos c"
  by (simp add: command_J_def)
lemma len_command_N [simp]: "len (command_N c) = len c"
  by (simp add: command_N_def)
lemma pos_command_N [simp]: "pos (command_N c) = pos c"
  by (simp add: command_N_def)
lemma len_command_P [simp]: "len (command_P c) = len c"
  by (simp add: command_P_def split_beta split: option.splits)
lemma pos_command_P [simp]: "n \<le> pos c \<Longrightarrow> n \<le> pos (command_P c)"
  by (simp add: command_P_def split_beta split: option.splits)
lemma len_command_Q [simp]: "len (command_Q c) = len c"
  by (simp add: command_Q_def split_beta split: option.splits)
lemma pos_command_Q [simp]: "n \<le> pos c \<Longrightarrow> n \<le> pos (command_Q c)"
  by (simp add: command_Q_def split_beta split: option.splits)
lemma len_command_L [simp]: "len (command_L c) = len c"
  by (simp add: command_L_def Let_def split_beta split: option.splits)
lemma pos_command_L [simp]: "n \<le> pos c \<Longrightarrow> n \<le> pos (command_L c)"
  by (simp add: command_L_def Let_def split_beta split: option.splits)

text \<open>\<open>M\<close>, \<open>S\<close>, \<open>T\<close>: operand lists; a missing operand or comma is the \<open>goto\<close> to the error exit.\<close>

definition command_M :: "MML_Compiler \<Rightarrow> MML_Compiler" where
  "command_M c =
     (let c0 = skip_space c
      in if peek c0 = Some CHR ''%''
         then (case parse_signed (snd (get c0)) of
                 (None, c1) \<Rightarrow> set_error c1 MML_ERR_FUNC_RANGE
               | (Some v, c1) \<Rightarrow>
                   if v < - 127 \<or> v > 127 then set_error c1 MML_ERR_FUNC_RANGE
                   else emit_byte (emit_byte c1 0xFD) (of_int (sign_byte v)))
         else (case parse_unsigned c0 of
                 (None, c1) \<Rightarrow> set_error c1 MML_ERR_FUNC_RANGE
               | (Some n1, c1) \<Rightarrow>
             (case expect_comma c1 of
                 (False, c2) \<Rightarrow> set_error c2 MML_ERR_FUNC_RANGE
               | (True, c2) \<Rightarrow>
             (case parse_unsigned c2 of
                 (None, c3) \<Rightarrow> set_error c3 MML_ERR_FUNC_RANGE
               | (Some n2, c3) \<Rightarrow>
             (case expect_comma c3 of
                 (False, c4) \<Rightarrow> set_error c4 MML_ERR_FUNC_RANGE
               | (True, c4) \<Rightarrow>
             (case parse_unsigned c4 of
                 (None, c5) \<Rightarrow> set_error c5 MML_ERR_FUNC_RANGE
               | (Some n3, c5) \<Rightarrow>
             (case expect_comma c5 of
                 (False, c6) \<Rightarrow> set_error c6 MML_ERR_FUNC_RANGE
               | (True, c6) \<Rightarrow>
             (case parse_signed c6 of
                 (None, c7) \<Rightarrow> set_error c7 MML_ERR_FUNC_RANGE
               | (Some n4, c7) \<Rightarrow>
                   emit_byte (emit_byte (emit_byte (emit_byte (emit_byte c7 0xF5)
                     (of_int n1)) (of_int n2)) (of_int n3)) (of_int (sign_byte n4))))))))))"

definition command_S :: "MML_Compiler \<Rightarrow> MML_Compiler" where
  "command_S c =
     (case parse_signed c of
         (None, c1) \<Rightarrow> set_error c1 MML_ERR_FUNC_RANGE
       | (Some n1, c1) \<Rightarrow>
     (case expect_comma c1 of
         (False, c2) \<Rightarrow> set_error c2 MML_ERR_FUNC_RANGE
       | (True, c2) \<Rightarrow>
     (case parse_unsigned c2 of
         (None, c3) \<Rightarrow> set_error c3 MML_ERR_FUNC_RANGE
       | (Some n2, c3) \<Rightarrow>
     (case expect_comma c3 of
         (False, c4) \<Rightarrow> set_error c4 MML_ERR_FUNC_RANGE
       | (True, c4) \<Rightarrow>
     (case parse_signed c4 of
         (None, c5) \<Rightarrow> set_error c5 MML_ERR_FUNC_RANGE
       | (Some n3, c5) \<Rightarrow>
     (case expect_comma c5 of
         (False, c6) \<Rightarrow> set_error c6 MML_ERR_FUNC_RANGE
       | (True, c6) \<Rightarrow>
     (case parse_signed c6 of
         (None, c7) \<Rightarrow> set_error c7 MML_ERR_FUNC_RANGE
       | (Some n4, c7) \<Rightarrow>
     (case expect_comma c7 of
         (False, c8) \<Rightarrow> set_error c8 MML_ERR_FUNC_RANGE
       | (True, c8) \<Rightarrow>
     (case parse_signed c8 of
         (None, c9) \<Rightarrow> set_error c9 MML_ERR_FUNC_RANGE
       | (Some n5, c9) \<Rightarrow>
           let c10 = emit_byte (emit_byte c9 0xEA) (of_int n1)
           in if n1 \<noteq> 0
              then emit_byte (emit_byte (emit_byte (emit_byte c10
                     (of_int n2)) (of_int n3)) (of_int n4)) (of_int (sign_byte n5))
              else c10)))))))))"

definition command_T :: "MML_Compiler \<Rightarrow> MML_Compiler" where
  "command_T c =
     (case parse_unsigned c of
         (None, c1) \<Rightarrow> set_error c1 MML_ERR_FUNC_RANGE
       | (Some n1, c1) \<Rightarrow>
           if n1 < 1 \<or> n1 > 255 then set_error c1 MML_ERR_FUNC_RANGE
           else
     (case expect_comma c1 of
         (False, c2) \<Rightarrow> set_error c2 MML_ERR_FUNC_RANGE
       | (True, c2) \<Rightarrow>
     (case parse_unsigned c2 of
         (None, c3) \<Rightarrow> set_error c3 MML_ERR_FUNC_RANGE
       | (Some n2, c3) \<Rightarrow>
           if n2 < 0 \<or> n2 > 255 then set_error c3 MML_ERR_FUNC_RANGE
           else emit_byte (emit_byte (emit_byte c3 0xF8) (of_int n1)) (of_int n2))))"

text \<open>\<open>U\<close> and \<open>W\<close>: the relative forms emit the raw two's-complement byte.\<close>

definition command_U :: "MML_Compiler \<Rightarrow> MML_Compiler" where
  "command_U c =
     (let c0 = skip_space c; nxt = peek c0
      in if nxt = Some CHR ''%''
         then (case parse_signed (snd (get c0)) of
                 (None, c1) \<Rightarrow> set_error c1 MML_ERR_FUNC_RANGE
               | (Some v, c1) \<Rightarrow>
                   if v < - 127 \<or> v > 127 then set_error c1 MML_ERR_FUNC_RANGE
                   else emit_byte (emit_byte c1 0xFB) (of_int (sign_byte v)))
         else if nxt = Some CHR ''+'' \<or> nxt = Some CHR ''-''
         then (case parse_signed c0 of
                 (None, c1) \<Rightarrow> set_error c1 MML_ERR_FUNC_RANGE
               | (Some v, c1) \<Rightarrow>
                   if v < - 127 \<or> v > 127 then set_error c1 MML_ERR_FUNC_RANGE
                   else emit_byte (emit_byte c1 0xFC) (of_int v))
         else set_error c0 MML_ERR_FUNC_RANGE)"

definition command_W :: "MML_Compiler \<Rightarrow> MML_Compiler" where
  "command_W c =
     (let c0 = skip_space c; nxt = peek c0
      in if nxt = Some CHR ''+'' \<or> nxt = Some CHR ''-''
         then (case parse_signed c0 of
                 (None, c1) \<Rightarrow> set_error c1 MML_ERR_FUNC_RANGE
               | (Some v, c1) \<Rightarrow>
                   if v < - 31 \<or> v > 31 then set_error c1 MML_ERR_FUNC_RANGE
                   else emit_byte (emit_byte c1 0xEC) (of_int v))
         else (case parse_unsigned c0 of
                 (None, c1) \<Rightarrow> set_error c1 MML_ERR_FUNC_RANGE
               | (Some v, c1) \<Rightarrow>
                   if v < 0 \<or> v > 31 then set_error c1 MML_ERR_FUNC_RANGE
                   else emit_byte (emit_byte c1 0xEB) (of_int v)))"

text \<open>\<open>X\<close>, \<open>_\<close> and \<open>;\<close>.\<close>

definition command_X :: "MML_Compiler \<Rightarrow> MML_Compiler" where
  "command_X c =
     (if nest_depth c > 0
      then (set_error c MML_ERR_RETURN_IN_NEST)\<lparr>nest_depth := 0\<rparr>
      else discard_line (emit_byte c 0xE9))"

definition command_key_shift :: "MML_Compiler \<Rightarrow> MML_Compiler" where
  "command_key_shift c =
     (case parse_signed c of
        (None, c1) \<Rightarrow> set_error c1 MML_ERR_FUNC_RANGE
      | (Some v, c1) \<Rightarrow>
          if v < - 12 \<or> v > 12 then set_error c1 MML_ERR_FUNC_RANGE
          else c1\<lparr>key_shift := v\<rparr>)"

definition command_comment :: "MML_Compiler \<Rightarrow> MML_Compiler" where
  "command_comment c = discard_line c"

lemma len_command_M [simp]: "len (command_M c) = len c"
  by (simp add: command_M_def Let_def split_beta split: option.splits bool.splits)
lemma pos_command_M [simp]: "n \<le> pos c \<Longrightarrow> n \<le> pos (command_M c)"
  by (simp add: command_M_def Let_def split_beta split: option.splits bool.splits)
lemma len_command_S [simp]: "len (command_S c) = len c"
  by (simp add: command_S_def Let_def split_beta split: option.splits bool.splits)
lemma pos_command_S [simp]: "n \<le> pos c \<Longrightarrow> n \<le> pos (command_S c)"
  by (simp add: command_S_def Let_def split_beta split: option.splits bool.splits)
lemma len_command_T [simp]: "len (command_T c) = len c"
  by (simp add: command_T_def Let_def split_beta split: option.splits bool.splits)
lemma pos_command_T [simp]: "n \<le> pos c \<Longrightarrow> n \<le> pos (command_T c)"
  by (simp add: command_T_def Let_def split_beta split: option.splits bool.splits)
lemma len_command_U [simp]: "len (command_U c) = len c"
  by (simp add: command_U_def Let_def split_beta split: option.splits bool.splits)
lemma pos_command_U [simp]: "n \<le> pos c \<Longrightarrow> n \<le> pos (command_U c)"
  by (simp add: command_U_def Let_def split_beta split: option.splits bool.splits)
lemma len_command_W [simp]: "len (command_W c) = len c"
  by (simp add: command_W_def Let_def split_beta split: option.splits bool.splits)
lemma pos_command_W [simp]: "n \<le> pos c \<Longrightarrow> n \<le> pos (command_W c)"
  by (simp add: command_W_def Let_def split_beta split: option.splits bool.splits)
lemma len_command_X [simp]: "len (command_X c) = len c"
  by (simp add: command_X_def)
lemma pos_command_X [simp]: "n \<le> pos c \<Longrightarrow> n \<le> pos (command_X c)"
  by (simp add: command_X_def)
lemma len_command_key_shift [simp]: "len (command_key_shift c) = len c"
  by (simp add: command_key_shift_def split_beta split: option.splits)
lemma pos_command_key_shift [simp]: "n \<le> pos c \<Longrightarrow> n \<le> pos (command_key_shift c)"
  by (simp add: command_key_shift_def split_beta split: option.splits)
lemma len_command_comment [simp]: "len (command_comment c) = len c"
  by (simp add: command_comment_def)
lemma pos_command_comment [simp]: "n \<le> pos c \<Longrightarrow> n \<le> pos (command_comment c)"
  by (simp add: command_comment_def)

subsection \<open>Loops\<close>

text \<open>
  Conversions written out: \<open>size_t\<close> arithmetic wraps at 64 bits, and the casts to
  \<open>int32_t\<close> keep the low 32 bits as a signed value.
\<close>

definition size_t_of :: "int \<Rightarrow> nat" where
  "size_t_of x = nat (x mod 2 ^ 64)"

definition int32_of :: "int \<Rightarrow> int" where
  "int32_of x = (x + 2 ^ 31) mod 2 ^ 32 - 2 ^ 31"

definition command_loop_begin :: "MML_Compiler \<Rightarrow> MML_Compiler" where
  "command_loop_begin c =
     (if nest_depth c \<ge> MML_MAX_NEST
      then (set_error c MML_ERR_FUNC_RANGE)\<lparr>nest_depth := 0\<rparr>
      else let c1 = emit_byte (emit_byte c 0xF0) 0x00;
               i = nest_depth c1;
               c2 = c1\<lparr>nest_depth := i + 1\<rparr>
           in c2\<lparr>loops := (loops c2)
                   (i := \<lparr> loop_start = out_len c2, exit_mark = LOOP_NOEXIT,
                           saved_l_len96 = 0, saved_lp_len96 = 0,
                           saved_octave = 0, saved_octave_last = 0 \<rparr>)\<rparr>)"

text \<open>
  The end of \<open>]\<close>: the level is popped and what \<open>:\<close> saved is restored, each saved
  field being cleared in \<open>loops[i]\<close> as it is used.
\<close>

definition loop_restore :: "MML_Compiler \<Rightarrow> int \<Rightarrow> MML_Compiler" where
  "loop_restore c i =
     (let c1 = c\<lparr>nest_depth := nest_depth c - 1\<rparr>;
          c2 = (if saved_l_len96 (loops c1 i) \<noteq> 0
                then c1\<lparr>l_len96 := saved_l_len96 (loops c1 i),
                        loops := (loops c1)(i := (loops c1 i)\<lparr>saved_l_len96 := 0\<rparr>)\<rparr>
                else c1);
          c3 = (if saved_lp_len96 (loops c2 i) \<noteq> 0
                then c2\<lparr>lp_len96 := saved_lp_len96 (loops c2 i),
                        loops := (loops c2)(i := (loops c2 i)\<lparr>saved_lp_len96 := 0\<rparr>)\<rparr>
                else c2)
      in if saved_octave (loops c3 i) \<noteq> 0
         then c3\<lparr>octave := saved_octave (loops c3 i),
                 octave_last := saved_octave_last (loops c3 i),
                 loops := (loops c3)(i := (loops c3 i)\<lparr>saved_octave := 0,
                                                       saved_octave_last := 0\<rparr>)\<rparr>
         else c3)"

definition backpatch_exit :: "MML_Compiler \<Rightarrow> MML_LoopState \<Rightarrow> MML_Compiler" where
  "backpatch_exit c ls =
     (if exit_mark ls \<noteq> LOOP_NOEXIT
      then let jump_pos = int32_of (int (out_len c));
               colon_pos = size_t_of (int (exit_mark ls) - 3);
               ex_off = jump_pos - int32_of (int (size_t_of (int colon_pos + 3)));
               ex16 = (of_int ex_off :: 16 word)
           in c\<lparr>out := (out c)
                  (size_t_of (int colon_pos + 1) := ucast (ex16 AND 0xFF),
                   size_t_of (int colon_pos + 2) := ucast (drop_bit 8 ex16))\<rparr>
      else c)"

definition command_loop_end :: "MML_Compiler \<Rightarrow> MML_Compiler" where
  "command_loop_end c =
     (if nest_depth c \<le> 0 then set_error c MML_ERR_OUT_OF_NEST
      else case parse_unsigned c of
             (None, c1) \<Rightarrow> set_error c1 MML_ERR_FUNC_RANGE
           | (Some count, c1) \<Rightarrow>
               if count < 2 \<or> count > 255 then set_error c1 MML_ERR_FUNC_RANGE
               else let i = nest_depth c1 - 1;
                        ls = loops c1 i;
                        nestnum_pos = size_t_of (int (loop_start ls) - 1);
                        c2 = c1\<lparr>out := (out c1)(nestnum_pos := of_int count)\<rparr>;
                        jump_pos = int32_of (int (out_len c2));
                        offset = int32_of (int (loop_start ls)) - (jump_pos + 3);
                        c3 = (if offset \<ge> - 256 \<and> offset \<le> - 1
                              then emit_byte (emit_byte c2 0xF1) (of_int ((offset + 1) AND 0xFF))
                              else emit_word_le (emit_byte c2 0xF2) (of_int offset))
                    in loop_restore (backpatch_exit c3 ls) i)"

definition command_loop_exit :: "MML_Compiler \<Rightarrow> MML_Compiler" where
  "command_loop_exit c =
     (if nest_depth c \<le> 0
      then (set_error c MML_ERR_OUT_OF_NEST)\<lparr>nest_depth := 0\<rparr>
      else let i = nest_depth c - 1
           in if exit_mark (loops c i) \<noteq> LOOP_NOEXIT
              then (set_error c MML_ERR_DUP_EXIT)\<lparr>nest_depth := 0\<rparr>
              else let c1 = emit_word_le (emit_byte c 0xF3) 0x0000
                   in c1\<lparr>loops := (loops c1)
                           (i := (loops c1 i)\<lparr>exit_mark := out_len c1,
                                               saved_l_len96 := l_len96 c1,
                                               saved_lp_len96 := lp_len96 c1,
                                               saved_octave := octave c1 mod 256,
                                               saved_octave_last := octave_last c1 mod 256\<rparr>)\<rparr>)"

lemma len_command_loop_begin [simp]: "len (command_loop_begin c) = len c"
  by (simp add: command_loop_begin_def Let_def)
lemma pos_command_loop_begin [simp]: "pos (command_loop_begin c) = pos c"
  by (simp add: command_loop_begin_def Let_def)
lemma len_loop_restore [simp]: "len (loop_restore c i) = len c"
  by (simp add: loop_restore_def Let_def)
lemma pos_loop_restore [simp]: "pos (loop_restore c i) = pos c"
  by (simp add: loop_restore_def Let_def)
lemma len_backpatch_exit [simp]: "len (backpatch_exit c ls) = len c"
  by (simp add: backpatch_exit_def Let_def)
lemma pos_backpatch_exit [simp]: "pos (backpatch_exit c ls) = pos c"
  by (simp add: backpatch_exit_def Let_def)
lemma len_command_loop_end [simp]: "len (command_loop_end c) = len c"
  by (simp add: command_loop_end_def Let_def split_beta split: option.splits)
lemma pos_command_loop_end [simp]: "n \<le> pos c \<Longrightarrow> n \<le> pos (command_loop_end c)"
  by (simp add: command_loop_end_def Let_def split_beta split: option.splits)
lemma len_command_loop_exit [simp]: "len (command_loop_exit c) = len c"
  by (simp add: command_loop_exit_def Let_def)
lemma pos_command_loop_exit [simp]: "pos (command_loop_exit c) = pos c"
  by (simp add: command_loop_exit_def Let_def)

subsection \<open>Dispatch\<close>

definition compile_command :: "MML_Compiler \<Rightarrow> char \<Rightarrow> MML_Compiler" where
  "compile_command c command =
     (let ch = toupper command
      in if ch = CHR ''O'' then command_O c
         else if ch = CHR ''>'' then command_octave_up c
         else if ch = CHR ''<'' then command_octave_down c
         else if ch = CHR ''V'' then command_V c
         else if ch = CHR ''('' then command_volume_up c
         else if ch = CHR '')'' then command_volume_down c
         else if ch = CHR ''I'' then command_I c
         else if ch = CHR ''J'' then command_J c
         else if ch = CHR ''L'' then command_L c
         else if ch = CHR ''M'' then command_M c
         else if ch = CHR ''N'' then command_N c
         else if ch = CHR ''P'' then command_P c
         else if ch = CHR ''Q'' then command_Q c
         else if ch = CHR ''S'' then command_S c
         else if ch = CHR ''T'' then command_T c
         else if ch = CHR ''U'' then command_U c
         else if ch = CHR ''W'' then command_W c
         else if ch = CHR ''X'' then command_X c
         else if ch = CHR ''_'' then command_key_shift c
         else if ch = CHR ''['' then command_loop_begin c
         else if ch = CHR '']'' then command_loop_end c
         else if ch = CHR '':'' then command_loop_exit c
         else if ch = CHR '';'' then command_comment c
         else set_error c MML_ERR_SYNTAX)"

lemma len_compile_command [simp]: "len (compile_command c ch) = len c"
  by (simp add: compile_command_def Let_def)

lemma pos_compile_command [simp]: "n \<le> pos c \<Longrightarrow> n \<le> pos (compile_command c ch)"
  by (simp add: compile_command_def Let_def)

text \<open>
  The comment loop of \<open>compile_statement\<close> reads through the newline. \<open>strchr\<close>
  also finds the terminating NUL of its string.
\<close>

function skip_comment :: "MML_Compiler \<Rightarrow> MML_Compiler" where
  "skip_comment c =
     (case get c of
        (None, c1) \<Rightarrow> c1
      | (Some ch, c1) \<Rightarrow> if ch = CHR 0x0A then c1 else skip_comment c1)"
  by pat_completeness auto
termination
  by (relation "measure (\<lambda>c. len c - pos c)")
     (auto simp: get_def Let_def split: if_splits)

declare skip_comment.simps [simp del]

lemma len_skip_comment [simp]: "len (skip_comment c) = len c"
proof (induction c rule: skip_comment.induct)
  case (1 c)
  obtain r c1 where g: "get c = (r, c1)" by (cases "get c")
  have "len c1 = len c" using len_get [of c] g by simp
  with 1 g show ?case
    by (subst skip_comment.simps) (simp split: option.splits)
qed

lemma pos_skip_comment [simp]: "n \<le> pos c \<Longrightarrow> n \<le> pos (skip_comment c)"
proof (induction c rule: skip_comment.induct)
  case (1 c)
  obtain r c1 where g: "get c = (r, c1)" by (cases "get c")
  have "n \<le> pos c1" using pos_get [of n c] g "1.prems" by simp
  with 1 g show ?case
    by (subst skip_comment.simps) (simp split: option.splits)
qed

definition compile_statement :: "MML_Compiler \<Rightarrow> MML_Compiler" where
  "compile_statement c =
     (let c1 = skip_space c
      in case peek c1 of
           None \<Rightarrow> c1
         | Some ch \<Rightarrow>
             if ch = CHR '';'' then skip_comment c1
             else if ch = CHR 0x0A then snd (get c1)
             else let c2 = snd (get c1);
                      up = toupper ch
                  in if up \<in> set ''ABCDEFGR'' \<or> up = CHR 0x00
                     then compile_note c2 up
                     else compile_command c2 up)"

lemma len_compile_statement [simp]: "len (compile_statement c) = len c"
  by (simp add: compile_statement_def Let_def split: option.splits)

lemma pos_skip_comment_less: "pos c < len c \<Longrightarrow> pos c < pos (skip_comment c)"
proof -
  assume a: "pos c < len c"
  obtain r c1 where g: "get c = (r, c1)" by (cases "get c")
  with a have c1: "pos c1 = pos c + 1" "r \<noteq> None"
    by (auto simp: get_def Let_def split: if_splits)
  have "pos c + 1 \<le> pos (skip_comment c1)"
    by (rule pos_skip_comment) (simp add: c1)
  then have "pos c < pos (skip_comment c1)" by simp
  with g c1 show ?thesis
    by (subst skip_comment.simps) (auto split: option.splits)
qed

lemma pos_compile_statement: "pos c < len c \<Longrightarrow> pos c < pos (compile_statement c)"
proof -
  assume a: "pos c < len c"
  define c1 where "c1 = skip_space c"
  have c1: "pos c \<le> pos c1" "len c1 = len c" by (simp_all add: c1_def)
  show ?thesis
  proof (cases "peek c1")
    case None
    then have "pos c1 \<ge> len c1" by (simp add: peek_def split: if_splits)
    with a c1 None show ?thesis
      by (simp add: compile_statement_def c1_def [symmetric])
  next
    case (Some ch)
    have lt: "pos c1 < len c1" by (rule peek_Some_less [OF Some])
    have g: "pos (snd (get c1)) = pos c1 + 1" by (rule pos_get_Some [OF Some])
    have sc: "pos c1 < pos (skip_comment c1)" by (rule pos_skip_comment_less [OF lt])
    have "\<And>u. pos c1 + 1 \<le> pos (compile_note (snd (get c1)) u)"
      by (rule pos_compile_note) (simp add: g)
    then have n: "\<And>u. pos c1 < pos (compile_note (snd (get c1)) u)"
      by (simp add: Suc_le_eq)
    have "\<And>u. pos c1 + 1 \<le> pos (compile_command (snd (get c1)) u)"
      by (rule pos_compile_command) (simp add: g)
    then have m: "\<And>u. pos c1 < pos (compile_command (snd (get c1)) u)"
      by (simp add: Suc_le_eq)
    have "pos c1 < pos (compile_statement c)"
      using Some g sc n m
      by (simp add: compile_statement_def c1_def [symmetric] Let_def del: set_simps)
    with c1 show ?thesis by simp
  qed
qed

section \<open>Public API: compiling a line\<close>

function compile_loop :: "MML_Compiler \<Rightarrow> MML_Compiler" where
  "compile_loop c =
     (if pos c < len c \<and> error c = MML_OK then compile_loop (compile_statement c) else c)"
  by pat_completeness auto
termination
  by (relation "measure (\<lambda>c. len c - pos c)")
     (auto simp: pos_compile_statement diff_less_mono2)

declare compile_loop.simps [simp del]

text \<open>
  \<open>s\<close> is the text of the C string \<open>src\<close> (it holds no NUL), so \<open>strlen\<close> is its
  length.
\<close>

definition mml_compile_line :: "MML_Compiler \<Rightarrow> string \<Rightarrow> int \<Rightarrow> MML_Error \<times> MML_Compiler" where
  "mml_compile_line c s line_no =
     (let c1 = compile_loop
                 (c\<lparr>src := s, len := length s, pos := 0, line := line_no, col := 1,
                    error := MML_OK, error_col := NOERROR\<rparr>)
      in (error c1, c1))"

section \<open>Public API: init and finish\<close>

text \<open>
  \<open>mml_channel_init\<close> clears the whole struct first, so its result depends on the
  buffer and its size only.
\<close>

definition mml_channel_init :: "(nat \<Rightarrow> 8 word) \<Rightarrow> nat \<Rightarrow> MML_Compiler" where
  "mml_channel_init out_buf out_size =
     \<lparr> src = [], pos = 0, len = 0, line = 0, col = 0,
       out = out_buf, out_len = 0, out_cap = out_size,
       nest_depth = 0, l_len96 = 24, lp_len96 = 192,
       octave = 4, octave_last = 4, key_shift = 0,
       loops = (\<lambda>i. \<lparr> loop_start = 0, exit_mark = LOOP_NOEXIT,
                       saved_l_len96 = 0, saved_lp_len96 = 0,
                       saved_octave = 0, saved_octave_last = 0 \<rparr>),
       error = MML_OK, error_col = 0 \<rparr>"

definition mml_finish_channel :: "MML_Compiler \<Rightarrow> MML_Error \<times> MML_Compiler" where
  "mml_finish_channel c =
     (if nest_depth c \<noteq> 0
      then let c1 = set_error c MML_ERR_CLOSE_NEST in (error c1, c1)
      else let c1 = emit_byte c 0xFF in (MML_OK, c1\<lparr>error := MML_OK\<rparr>))"

section \<open>Evaluation\<close>

text \<open>
  The defining equations, collected for running the compiler on a concrete line
  inside the logic. \<open>CH_BUF_SIZE\<close> is the buffer size \<open>main\<close> gives every channel;
  \<open>blank_buffer\<close> is a buffer of zero bytes to run examples in.
\<close>

definition CH_BUF_SIZE :: nat where
  "CH_BUF_SIZE = 32768"

definition blank_buffer :: "nat \<Rightarrow> 8 word" where
  "blank_buffer i = 0"

lemmas scanner_eval =
  peek_def get_def isdigit_def digit_val_def toupper_def skip_space.simps
  unsigned_digits.simps parse_unsigned_def parse_signed_def sign_byte_def INT_MAX_def

lemmas emitter_eval =
  set_error_def ensure_space_def emit_byte_def emit_word_le_def NOERROR_def emitted_def

lemmas length_eval =
  notename_to_tonenum_def PARA_F_MINUS_def PARA_F_PLUS_def PARA_F_PERCENT_def
  PARA_F_NOVALUE_def UINT16_MAX_def para_digits.simps parse_para_def apply_dots_def
  length_base_def count_dots.simps length_dotted_def parse_length_96.simps
  concat_lengths.simps make_note_header_def

lemmas statement_eval =
  set_octave_def emit_octave_def note_accidental_def note_key_shift_def note_tone_def
  emit_note_def compile_note_def discard_line.simps expect_comma_def
  command_O_def command_octave_up_def command_octave_down_def command_V_def
  command_volume_up_def command_volume_down_def command_I_def command_J_def
  command_N_def command_P_def command_Q_def command_L_def command_M_def command_S_def
  command_T_def command_U_def command_W_def command_X_def command_key_shift_def
  command_comment_def size_t_of_def int32_of_def command_loop_begin_def
  loop_restore_def backpatch_exit_def command_loop_end_def command_loop_exit_def
  compile_command_def skip_comment.simps compile_statement_def compile_loop.simps
  mml_compile_line_def mml_channel_init_def mml_finish_channel_def
  LOOP_NOEXIT_def MML_MAX_NEST_def CH_BUF_SIZE_def Let_def

section \<open>The object file (main.c)\<close>

text \<open>
  The end of \<open>main\<close>, after the three channels have been finished without error. The
  channel offsets are \<open>uint16_t\<close> fields. \<open>outbuf\<close> comes from \<open>malloc\<close>, which
  leaves its contents indeterminate: \<open>block\<close> is what the allocated memory holds
  before the program writes to it. \<open>object_bytes\<close> is the first \<open>totallen\<close> bytes of
  \<open>outbuf\<close> after the loop over the channels. The block is \<open>totallen\<close> bytes long,
  and a write outside it is undefined behaviour in C: \<open>object_in_block\<close> says that
  every write of the loop (the three address words and the three copies) lands inside
  the block, and \<open>object_file\<close> is the file that is written, \<open>None\<close> where the
  program has no defined behaviour. This happens only when the 16-bit offsets wrap
  around.
\<close>

definition CH1_START_OFFSET :: "16 word" where
  "CH1_START_OFFSET = 8"

definition put_word_le :: "(nat \<Rightarrow> 8 word) \<Rightarrow> nat \<Rightarrow> 16 word \<Rightarrow> (nat \<Rightarrow> 8 word)" where
  "put_word_le buf at v = buf(at := ucast (v AND 0xFF), at + 1 := ucast (drop_bit 8 v))"

definition memcpy :: "(nat \<Rightarrow> 8 word) \<Rightarrow> nat \<Rightarrow> (nat \<Rightarrow> 8 word) \<Rightarrow> nat \<Rightarrow> (nat \<Rightarrow> 8 word)" where
  "memcpy dst at from n = (\<lambda>i. if at \<le> i \<and> i < at + n then from (i - at) else dst i)"

definition object_bytes ::
  "int \<Rightarrow> (nat \<Rightarrow> 8 word) \<Rightarrow> MML_Compiler \<Rightarrow> MML_Compiler \<Rightarrow> MML_Compiler \<Rightarrow> 8 word list" where
  "object_bytes baseaddr block ch1 ch2 ch3 =
     (let offset0 = CH1_START_OFFSET;
          offset1 = offset0 + of_nat (out_len ch1);
          offset2 = offset1 + of_nat (out_len ch2);
          totallen = unat offset2 + out_len ch3;
          outbuf1 = memcpy (put_word_le block 0 (of_int (baseaddr + uint offset0)))
                      (unat offset0) (out ch1) (out_len ch1);
          outbuf2 = memcpy (put_word_le outbuf1 2 (of_int (baseaddr + uint offset1)))
                      (unat offset1) (out ch2) (out_len ch2);
          outbuf3 = memcpy (put_word_le outbuf2 4 (of_int (baseaddr + uint offset2)))
                      (unat offset2) (out ch3) (out_len ch3)
      in map outbuf3 [0 ..< totallen])"

definition object_in_block :: "MML_Compiler \<Rightarrow> MML_Compiler \<Rightarrow> MML_Compiler \<Rightarrow> bool" where
  "object_in_block ch1 ch2 ch3 =
     (let offset0 = CH1_START_OFFSET;
          offset1 = offset0 + of_nat (out_len ch1);
          offset2 = offset1 + of_nat (out_len ch2);
          totallen = unat offset2 + out_len ch3
      in 6 \<le> totallen
         \<and> unat offset0 + out_len ch1 \<le> totallen
         \<and> unat offset1 + out_len ch2 \<le> totallen
         \<and> unat offset2 + out_len ch3 \<le> totallen)"

definition object_file ::
  "int \<Rightarrow> (nat \<Rightarrow> 8 word) \<Rightarrow> MML_Compiler \<Rightarrow> MML_Compiler \<Rightarrow> MML_Compiler
     \<Rightarrow> 8 word list option" where
  "object_file baseaddr block ch1 ch2 ch3 =
     (if object_in_block ch1 ch2 ch3
      then Some (object_bytes baseaddr block ch1 ch2 ch3)
      else None)"

definition stale_block :: "nat \<Rightarrow> 8 word" where
  "stale_block i = 0xAA"

definition silent_channel :: MML_Compiler where
  "silent_channel = snd (mml_finish_channel (mml_channel_init blank_buffer CH_BUF_SIZE))"

lemmas object_eval =
  object_file_def object_in_block_def object_bytes_def CH1_START_OFFSET_def put_word_le_def
  memcpy_def stale_block_def silent_channel_def blank_buffer_def

lemma channel_offsets:
  assumes "8 + out_len ch1 + out_len ch2 < 65536"
  shows "unat (CH1_START_OFFSET + of_nat (out_len ch1) :: 16 word) = 8 + out_len ch1"
    and "unat (CH1_START_OFFSET + of_nat (out_len ch1) + of_nat (out_len ch2) :: 16 word)
           = 8 + out_len ch1 + out_len ch2"
  using assms
  by (simp_all add: CH1_START_OFFSET_def unat_word_ariths unat_of_nat)

lemma memcpy_below: "i < at \<Longrightarrow> memcpy dst at from n i = dst i"
  by (simp add: memcpy_def)

lemma put_word_le_same:
  "dst i = dst1 i \<Longrightarrow> put_word_le dst at v i = put_word_le dst1 at v i"
  by (simp add: put_word_le_def)

lemma object_bytes_header:
  assumes "8 + out_len ch1 + out_len ch2 < 65536" and "i < 8"
  shows "object_bytes baseaddr block ch1 ch2 ch3 ! i =
           (put_word_le (put_word_le (put_word_le block
               0 (of_int (baseaddr + 8)))
               2 (of_int (baseaddr + 8 + int (out_len ch1))))
               4 (of_int (baseaddr + 8 + int (out_len ch1) + int (out_len ch2)))) i"
proof -
  define offset1 :: "16 word" where "offset1 = CH1_START_OFFSET + of_nat (out_len ch1)"
  define offset2 :: "16 word" where "offset2 = offset1 + of_nat (out_len ch2)"
  have u0: "unat CH1_START_OFFSET = 8" by (simp add: CH1_START_OFFSET_def)
  have u1: "unat offset1 = 8 + out_len ch1"
    unfolding offset1_def by (rule channel_offsets(1) [OF assms(1)])
  have u2: "unat offset2 = 8 + out_len ch1 + out_len ch2"
    unfolding offset2_def offset1_def by (rule channel_offsets(2) [OF assms(1)])
  have w0: "(of_int (baseaddr + uint CH1_START_OFFSET) :: 16 word) = of_int (baseaddr + 8)"
    by (simp add: CH1_START_OFFSET_def)
  have w1: "(of_int (baseaddr + uint offset1) :: 16 word)
              = of_int (baseaddr + 8 + int (out_len ch1))"
    using u1 by (simp add: uint_nat)
  have w2: "(of_int (baseaddr + uint offset2) :: 16 word)
              = of_int (baseaddr + 8 + int (out_len ch1) + int (out_len ch2))"
    using u2 by (simp add: uint_nat)
  define outbuf1 where
    "outbuf1 = memcpy (put_word_le block 0 (of_int (baseaddr + uint CH1_START_OFFSET)))
                 (unat CH1_START_OFFSET) (out ch1) (out_len ch1)"
  define outbuf2 where
    "outbuf2 = memcpy (put_word_le outbuf1 2 (of_int (baseaddr + uint offset1)))
                 (unat offset1) (out ch2) (out_len ch2)"
  define outbuf3 where
    "outbuf3 = memcpy (put_word_le outbuf2 4 (of_int (baseaddr + uint offset2)))
                 (unat offset2) (out ch3) (out_len ch3)"
  have whole: "object_bytes baseaddr block ch1 ch2 ch3
                = map outbuf3 [0 ..< unat offset2 + out_len ch3]"
    unfolding object_bytes_def Let_def outbuf1_def outbuf2_def outbuf3_def
      offset1_def offset2_def ..
  have i0: "i < unat CH1_START_OFFSET" and i1: "i < unat offset1" and i2: "i < unat offset2"
    using assms(2) u0 u1 u2 by simp_all
  have b1: "outbuf1 i = put_word_le block 0 (of_int (baseaddr + 8)) i"
    unfolding outbuf1_def w0 by (rule memcpy_below [OF i0])
  have b2: "outbuf2 i = put_word_le outbuf1 2 (of_int (baseaddr + 8 + int (out_len ch1))) i"
    unfolding outbuf2_def w1 by (rule memcpy_below [OF i1])
  have b3: "outbuf3 i = put_word_le outbuf2 4
              (of_int (baseaddr + 8 + int (out_len ch1) + int (out_len ch2))) i"
    unfolding outbuf3_def w2 by (rule memcpy_below [OF i2])
  have "outbuf3 i =
           (put_word_le (put_word_le (put_word_le block
               0 (of_int (baseaddr + 8)))
               2 (of_int (baseaddr + 8 + int (out_len ch1))))
               4 (of_int (baseaddr + 8 + int (out_len ch1) + int (out_len ch2)))) i"
    unfolding b3
    by (rule put_word_le_same, unfold b2, rule put_word_le_same, rule b1)
  moreover have "i < unat offset2 + out_len ch3" using i2 by simp
  ultimately show ?thesis by (simp add: whole)
qed

lemma object_bytes_unused_bytes:
  assumes "8 + out_len ch1 + out_len ch2 < 65536"
  shows "object_bytes baseaddr block ch1 ch2 ch3 ! 6 = block 6"
    and "object_bytes baseaddr block ch1 ch2 ch3 ! 7 = block 7"
  by (simp_all add: object_bytes_header [OF assms] put_word_le_def)

lemma object_bytes_address_words:
  assumes "8 + out_len ch1 + out_len ch2 < 65536"
  shows "object_bytes baseaddr block ch1 ch2 ch3 ! 0
           = ucast ((of_int (baseaddr + 8) :: 16 word) AND 0xFF)"
    and "object_bytes baseaddr block ch1 ch2 ch3 ! 1
           = ucast (drop_bit 8 (of_int (baseaddr + 8) :: 16 word))"
    and "object_bytes baseaddr block ch1 ch2 ch3 ! 2
           = ucast ((of_int (baseaddr + 8 + int (out_len ch1)) :: 16 word) AND 0xFF)"
    and "object_bytes baseaddr block ch1 ch2 ch3 ! 3
           = ucast (drop_bit 8 (of_int (baseaddr + 8 + int (out_len ch1)) :: 16 word))"
    and "object_bytes baseaddr block ch1 ch2 ch3 ! 4
           = ucast ((of_int (baseaddr + 8 + int (out_len ch1) + int (out_len ch2)) :: 16 word)
                    AND 0xFF)"
    and "object_bytes baseaddr block ch1 ch2 ch3 ! 5
           = ucast (drop_bit 8
               (of_int (baseaddr + 8 + int (out_len ch1) + int (out_len ch2)) :: 16 word))"
  by (simp_all add: object_bytes_header [OF assms] put_word_le_def)

lemma object_file_defined:
  assumes "8 + out_len ch1 + out_len ch2 < 65536"
  shows "object_file baseaddr block ch1 ch2 ch3
           = Some (object_bytes baseaddr block ch1 ch2 ch3)"
proof -
  note u = channel_offsets [OF assms]
  have "unat CH1_START_OFFSET = 8" by (simp add: CH1_START_OFFSET_def)
  then have "object_in_block ch1 ch2 ch3"
    by (simp add: object_in_block_def Let_def u)
  then show ?thesis by (simp add: object_file_def)
qed

text \<open>
  With two channel buffers of \<open>CH_BUF_SIZE\<close> bytes nearly full, the third offset
  wraps around, the block is shorter than the data copied into it, and the program
  has no defined behaviour.
\<close>

lemma object_file_wrapped:
  assumes "65536 \<le> 8 + out_len ch1 + out_len ch2"
    and "out_len ch1 \<le> CH_BUF_SIZE" and "out_len ch2 \<le> CH_BUF_SIZE"
    and "out_len ch3 \<le> CH_BUF_SIZE"
  shows "object_file baseaddr block ch1 ch2 ch3 = None"
proof -
  define offset1 :: "16 word" where "offset1 = CH1_START_OFFSET + of_nat (out_len ch1)"
  define offset2 :: "16 word" where "offset2 = offset1 + of_nat (out_len ch2)"
  have b: "out_len ch1 \<le> 32768" "out_len ch2 \<le> 32768" "out_len ch3 \<le> 32768"
    using assms(2,3,4) by (simp_all add: CH_BUF_SIZE_def)
  have u1: "unat offset1 = 8 + out_len ch1"
    using b by (simp add: offset1_def CH1_START_OFFSET_def unat_word_ariths unat_of_nat)
  have u2: "unat offset2 = (8 + out_len ch1 + out_len ch2) mod 65536"
    using b by (simp add: offset2_def unat_word_ariths unat_of_nat u1 mod_simps)
  have "unat offset2 = 8 + out_len ch1 + out_len ch2 - 65536"
    unfolding u2 using assms(1) b
    by (simp add: mod_if)
  then have "\<not> unat offset1 + out_len ch2 \<le> unat offset2 + out_len ch3"
    using u1 assms(1) b by simp
  then have "\<not> object_in_block ch1 ch2 ch3"
    by (simp add: object_in_block_def Let_def offset1_def [symmetric] offset2_def [symmetric])
  then show ?thesis by (simp add: object_file_def)
qed

section \<open>Reading a known text\<close>

text \<open>
  \<open>reads c w\<close>: the part of the line that \<open>c\<close> has not consumed yet is \<open>w\<close>. It
  lets a proof follow the scanner over a text that is given by its shape.
\<close>

definition reads :: "MML_Compiler \<Rightarrow> string \<Rightarrow> bool" where
  "reads c w \<longleftrightarrow>
     len c \<le> length (src c) \<and> pos c \<le> len c \<and> drop (pos c) (take (len c) (src c)) = w"

lemma reads_Nil: "reads c [] \<Longrightarrow> peek c = None"
  by (auto simp: reads_def peek_def)

lemma reads_Cons_peek:
  assumes "reads c (x # w)"
  shows "peek c = Some x"
proof -
  from assms have d: "drop (pos c) (take (len c) (src c)) = x # w"
    and l: "len c \<le> length (src c)"
    by (simp_all add: reads_def)
  from d have lt: "pos c < length (take (len c) (src c))"
    by (metis drop_all list.distinct(1) not_le)
  with l have lt': "pos c < len c" by simp
  from d have "take (len c) (src c) ! pos c = x"
    by (metis nth_via_drop)
  with lt' have "src c ! pos c = x" by simp
  with lt' show ?thesis by (simp add: peek_def)
qed

lemma reads_Cons_get:
  assumes "reads c (x # w)"
  shows "reads (snd (get c)) w"
proof -
  from assms have d: "drop (pos c) (take (len c) (src c)) = x # w"
    and l: "len c \<le> length (src c)"
    by (simp_all add: reads_def)
  from d have lt: "pos c < length (take (len c) (src c))"
    by (metis drop_all list.distinct(1) not_le)
  with l have lt': "pos c < len c" by simp
  from d have "drop (Suc (pos c)) (take (len c) (src c)) = w"
    by (metis drop_Suc list.sel(3) tl_drop)
  with l lt' show ?thesis
    by (simp add: reads_def get_def Let_def)
qed

lemma reads_error_col [simp]: "reads (c\<lparr>error_col := e\<rparr>) w = reads c w"
  by (simp add: reads_def)

lemma peek_error_col [simp]: "peek (c\<lparr>error_col := e\<rparr>) = peek c"
  by (simp add: peek_def)

lemma l_len96_get [simp]: "l_len96 (snd (get c)) = l_len96 c"
  by (simp add: get_def Let_def)

lemma skip_space_none:
  "peek c \<noteq> Some CHR '' '' \<Longrightarrow> peek c \<noteq> Some CHR 0x09 \<Longrightarrow> peek c \<noteq> Some CHR 0x0D \<Longrightarrow>
     skip_space c = c"
  by (simp add: skip_space.simps)

text \<open>
  One dotted default length: with \<open>l_len96 = 254\<close>, the text \<open>.\<close> followed by the
  end of the line or by \<open>^\<close> resolves to 254 + 127 = 381 ticks.
\<close>

lemma dotted_default_segment:
  assumes r: "reads c (CHR ''.'' # w)"
    and w: "w = [] \<or> (\<exists>w1. w = CHR ''^'' # w1)"
    and l: "l_len96 c = 254"
  shows "\<exists>c1. length_dotted c = (Some (381, PARA_F_NOVALUE), c1)
              \<and> reads c1 w \<and> l_len96 c1 = 254"
proof -
  have pk: "peek c = Some CHR ''.''" by (rule reads_Cons_peek [OF r])
  have sk: "skip_space c = c" by (rule skip_space_none) (simp_all add: pk)
  have pp: "parse_para c = (PARA_F_NOVALUE, 0, c)"
    by (simp add: parse_para_def sk pk isdigit_def Let_def)
  define c2 where "c2 = c\<lparr>error_col := col c\<rparr>"
  have lb: "length_base c = (Some (254, PARA_F_NOVALUE), c2)"
    by (simp add: length_base_def pp l c2_def PARA_F_NOVALUE_def PARA_F_PERCENT_def)
  define c3 where "c3 = c2\<lparr>error_col := col c2\<rparr>"
  have r3: "reads c3 (CHR ''.'' # w)" and pk3: "peek c3 = Some CHR ''.''"
    using r pk by (simp_all add: c3_def c2_def)
  have sk3: "skip_space c3 = c3" by (rule skip_space_none) (simp_all add: pk3)
  define g where "g = snd (get c3)"
  have rg: "reads g w" unfolding g_def by (rule reads_Cons_get [OF r3])
  have pkg: "peek g = None \<or> peek g = Some CHR ''^''"
    using w rg reads_Nil [of g] reads_Cons_peek [of g "CHR ''^''"] by auto
  have skg: "skip_space g = g" by (rule skip_space_none) (use pkg in auto)
  have "count_dots 1 g = (1, g)"
    using pkg by (subst count_dots.simps) (auto simp: skg Let_def)
  then have cd: "count_dots 0 c3 = (1, g)"
    by (subst count_dots.simps) (simp add: sk3 pk3 g_def Let_def)
  have ad: "apply_dots (g\<lparr>error_col := error_col g + 1\<rparr>) 254 1
              = (Some 381, g\<lparr>error_col := error_col g + 1 + 1\<rparr>)"
    by (simp add: apply_dots_def Let_def)
  have ld: "length_dotted c
              = (Some (381, PARA_F_NOVALUE), g\<lparr>error_col := NOERROR\<rparr>)"
    using cd ad by (simp add: length_dotted_def lb c3_def [symmetric])
  have lg: "l_len96 g = 254"
    by (simp add: g_def c3_def c2_def l)
  show ?thesis
    using ld rg lg by simp
qed

lemma concat_lengths_at_end:
  assumes "reads c []"
  shows "concat_lengths base_len flag c = (Some (base_len, flag), c)"
proof -
  have pk: "peek c = None" by (rule reads_Nil [OF assms])
  have sk: "skip_space c = c" by (rule skip_space_none) (simp_all add: pk)
  show ?thesis by (subst concat_lengths.simps) (simp add: sk pk Let_def)
qed

text \<open>
  A chain of \<open>k + 1\<close> such lengths joined by \<open>^\<close> is accepted, whatever \<open>k\<close> is, with
  the total \<open>381 * (k + 1)\<close>: the sum is not compared with any bound.
\<close>

lemma dotted_default_chain:
  "reads c (CHR ''.'' # concat (replicate k ''^.'')) \<Longrightarrow> l_len96 c = 254 \<Longrightarrow>
     \<exists>c1. parse_length_96 c = (Some (381 * (int k + 1), PARA_F_NOVALUE), c1) \<and> reads c1 []"
proof (induction k arbitrary: c)
  case 0
  then obtain c1 where s: "length_dotted c = (Some (381, PARA_F_NOVALUE), c1)"
    and r1: "reads c1 []"
    using dotted_default_segment [of c "[]"] by auto
  show ?case
    using r1 by (subst parse_length_96.simps) (simp add: s concat_lengths_at_end)
next
  case (Suc k)
  let ?w = "CHR ''^'' # CHR ''.'' # concat (replicate k ''^.'')"
  from Suc.prems obtain c1 where s: "length_dotted c = (Some (381, PARA_F_NOVALUE), c1)"
    and r1: "reads c1 ?w" and l1: "l_len96 c1 = 254"
    using dotted_default_segment [of c ?w] by auto
  have pk: "peek c1 = Some CHR ''^''" by (rule reads_Cons_peek [OF r1])
  have sk: "skip_space c1 = c1" by (rule skip_space_none) (simp_all add: pk)
  have rg: "reads (snd (get c1)) (CHR ''.'' # concat (replicate k ''^.''))"
    by (rule reads_Cons_get [OF r1])
  have lg: "l_len96 (snd (get c1)) = 254" using l1 by simp
  from Suc.IH [OF rg lg] obtain c2
    where p: "parse_length_96 (snd (get c1)) = (Some (381 * (int k + 1), PARA_F_NOVALUE), c2)"
      and r2: "reads c2 []"
    by auto
  have "concat_lengths 381 PARA_F_NOVALUE c1
          = concat_lengths (381 + 381 * (int k + 1)) PARA_F_NOVALUE c2"
    by (subst concat_lengths.simps) (simp add: sk pk p Let_def)
  also have "\<dots> = (Some (381 + 381 * (int k + 1), PARA_F_NOVALUE), c2)"
    by (rule concat_lengths_at_end [OF r2])
  finally have "parse_length_96 c = (Some (381 + 381 * (int k + 1), PARA_F_NOVALUE), c2)"
    by (subst parse_length_96.simps) (simp add: s)
  with r2 show ?case by (simp add: algebra_simps)
qed


section \<open>The transposition is not read outside the tone step\<close>

text \<open>
  The scanner, the length resolver and the emitter neither read nor write
  \<open>key_shift\<close>: run from a state with another \<open>key_shift\<close>, they give the same
  results and the same state up to that field.
\<close>

lemma ks_error_col [simp]:
  "(c\<lparr>key_shift := k\<rparr>)\<lparr>error_col := e\<rparr> = (c\<lparr>error_col := e\<rparr>)\<lparr>key_shift := k\<rparr>"
  by (cases c) simp

lemma ks_peek [simp]: "peek (c\<lparr>key_shift := k\<rparr>) = peek c"
  by (simp add: peek_def)

lemma ks_get [simp]:
  "fst (get (c\<lparr>key_shift := k\<rparr>)) = fst (get c)"
  "snd (get (c\<lparr>key_shift := k\<rparr>)) = (snd (get c))\<lparr>key_shift := k\<rparr>"
  by (simp_all add: get_def Let_def)

lemma ks_skip_space [simp]: "skip_space (c\<lparr>key_shift := k\<rparr>) = (skip_space c)\<lparr>key_shift := k\<rparr>"
proof (induction c rule: skip_space.induct)
  case (1 c)
  then show ?case
    by (simp add: skip_space.simps [of c] skip_space.simps [of "c\<lparr>key_shift := k\<rparr>"])
qed

lemma ks_set_error [simp]: "set_error (c\<lparr>key_shift := k\<rparr>) e = (set_error c e)\<lparr>key_shift := k\<rparr>"
  by (simp add: set_error_def)

lemma ks_para_digits_pair:
  "para_digits v (c\<lparr>key_shift := k\<rparr>)
     = (fst (para_digits v c), (snd (para_digits v c))\<lparr>key_shift := k\<rparr>)"
proof (induction v c rule: para_digits.induct)
  case (1 val c)
  show ?case
  proof (cases "isdigit (peek c)")
    case False
    then show ?thesis
      by (simp add: para_digits.simps [of val c]
            para_digits.simps [of val "c\<lparr>key_shift := k\<rparr>"])
  next
    case True
    define val1 :: "16 word"
      where "val1 = ucast ((ucast val :: 32 word) * 10 + of_nat (digit_val (peek c)))"
    define val2 where "val2 = (if val1 \<ge> UINT16_MAX then UINT16_MAX else val1)"
    have ih: "para_digits val2 ((snd (get c))\<lparr>key_shift := k\<rparr>)
                = (fst (para_digits val2 (snd (get c))),
                   (snd (para_digits val2 (snd (get c))))\<lparr>key_shift := k\<rparr>)"
      by (rule "1.IH" [of "of_nat (digit_val (peek c))" val1 val2])
         (simp_all add: True val1_def val2_def)
    have "para_digits val c = para_digits val2 (snd (get c))"
      by (simp add: para_digits.simps [of val c] True Let_def val1_def val2_def)
    moreover have "para_digits val (c\<lparr>key_shift := k\<rparr>)
                     = para_digits val2 ((snd (get c))\<lparr>key_shift := k\<rparr>)"
      by (simp add: para_digits.simps [of val "c\<lparr>key_shift := k\<rparr>"] True Let_def
            val1_def val2_def)
    ultimately show ?thesis using ih by simp
  qed
qed

lemma ks_para_digits [simp]:
  "fst (para_digits v (c\<lparr>key_shift := k\<rparr>)) = fst (para_digits v c)"
  "snd (para_digits v (c\<lparr>key_shift := k\<rparr>)) = (snd (para_digits v c))\<lparr>key_shift := k\<rparr>"
  by (simp_all add: ks_para_digits_pair)

lemma ks_parse_para [simp]:
  "fst (parse_para (c\<lparr>key_shift := k\<rparr>)) = fst (parse_para c)"
  "fst (snd (parse_para (c\<lparr>key_shift := k\<rparr>))) = fst (snd (parse_para c))"
  "snd (snd (parse_para (c\<lparr>key_shift := k\<rparr>))) = (snd (snd (parse_para c)))\<lparr>key_shift := k\<rparr>"
  by (simp_all add: parse_para_def Let_def split_beta)

lemma ks_length_base [simp]:
  "fst (length_base (c\<lparr>key_shift := k\<rparr>)) = fst (length_base c)"
  "snd (length_base (c\<lparr>key_shift := k\<rparr>)) = (snd (length_base c))\<lparr>key_shift := k\<rparr>"
  by (simp_all add: length_base_def Let_def split_beta)

lemma ks_count_dots_pair:
  "count_dots d (c\<lparr>key_shift := k\<rparr>)
     = (fst (count_dots d c), (snd (count_dots d c))\<lparr>key_shift := k\<rparr>)"
proof (induction d c rule: count_dots.induct)
  case (1 dots c)
  show ?case
  proof (cases "peek (skip_space c) = Some CHR ''.''")
    case False
    then show ?thesis
      by (simp add: count_dots.simps [of dots c]
            count_dots.simps [of dots "c\<lparr>key_shift := k\<rparr>"] Let_def)
  next
    case True
    have ih: "count_dots (dots + 1) ((snd (get (skip_space c)))\<lparr>key_shift := k\<rparr>)
                = (fst (count_dots (dots + 1) (snd (get (skip_space c)))),
                   (snd (count_dots (dots + 1) (snd (get (skip_space c)))))\<lparr>key_shift := k\<rparr>)"
      by (rule "1.IH" [of "skip_space c"]) (simp_all add: True)
    have "count_dots dots c = count_dots (dots + 1) (snd (get (skip_space c)))"
      by (simp add: count_dots.simps [of dots c] True Let_def)
    moreover have "count_dots dots (c\<lparr>key_shift := k\<rparr>)
                     = count_dots (dots + 1) ((snd (get (skip_space c)))\<lparr>key_shift := k\<rparr>)"
      by (simp add: count_dots.simps [of dots "c\<lparr>key_shift := k\<rparr>"] True Let_def)
    ultimately show ?thesis using ih by simp
  qed
qed

lemma ks_count_dots [simp]:
  "fst (count_dots d (c\<lparr>key_shift := k\<rparr>)) = fst (count_dots d c)"
  "snd (count_dots d (c\<lparr>key_shift := k\<rparr>)) = (snd (count_dots d c))\<lparr>key_shift := k\<rparr>"
  by (simp_all add: ks_count_dots_pair)

lemma ks_dots_loop_pair:
  "dots_loop i l h (c\<lparr>key_shift := k\<rparr>)
     = (fst (dots_loop i l h c), (snd (dots_loop i l h c))\<lparr>key_shift := k\<rparr>)"
proof (induction i l h c rule: dots_loop.induct)
  case (1 len96 half c)
  show ?case by simp
next
  case (2 i len96 half c)
  show ?case
  proof (cases "half mod 2 \<noteq> 0")
    case True
    then show ?thesis by simp
  next
    case False
    have "dots_loop i (len96 + half div 2) (half div 2)
            ((c\<lparr>error_col := error_col c + 1\<rparr>)\<lparr>key_shift := k\<rparr>)
          = (fst (dots_loop i (len96 + half div 2) (half div 2) (c\<lparr>error_col := error_col c + 1\<rparr>)),
             (snd (dots_loop i (len96 + half div 2) (half div 2)
                (c\<lparr>error_col := error_col c + 1\<rparr>)))\<lparr>key_shift := k\<rparr>)"
      using False by (intro "2.IH" [of "half div 2"]) simp_all
    with False show ?thesis by (simp add: Let_def)
  qed
qed

lemma ks_apply_dots [simp]:
  "fst (apply_dots (c\<lparr>key_shift := k\<rparr>) b d) = fst (apply_dots c b d)"
  "snd (apply_dots (c\<lparr>key_shift := k\<rparr>) b d) = (snd (apply_dots c b d))\<lparr>key_shift := k\<rparr>"
  by (simp_all add: apply_dots_def ks_dots_loop_pair split_beta split: option.splits)

lemma ks_length_dotted [simp]:
  "fst (length_dotted (c\<lparr>key_shift := k\<rparr>)) = fst (length_dotted c)"
  "snd (length_dotted (c\<lparr>key_shift := k\<rparr>)) = (snd (length_dotted c))\<lparr>key_shift := k\<rparr>"
  by (simp_all add: length_dotted_def Let_def split_beta split: option.splits)

lemma ks_parse_length_96:
  "parse_length_96 (c\<lparr>key_shift := k\<rparr>)
     = (fst (parse_length_96 c), (snd (parse_length_96 c))\<lparr>key_shift := k\<rparr>)"
  and ks_concat_lengths:
  "concat_lengths base_len flag (c\<lparr>key_shift := k\<rparr>)
     = (fst (concat_lengths base_len flag c),
        (snd (concat_lengths base_len flag c))\<lparr>key_shift := k\<rparr>)"
proof (induction c and base_len flag c rule: parse_length_96_concat_lengths.induct)
  case (1 c)
  obtain r c1 where d: "length_dotted c = (r, c1)" by (cases "length_dotted c")
  have d1: "length_dotted (c\<lparr>key_shift := k\<rparr>) = (r, c1\<lparr>key_shift := k\<rparr>)"
    using ks_length_dotted [where c = c and k = k] d by (simp add: prod_eq_iff)
  show ?case
  proof (cases r)
    case None
    then show ?thesis
      by (simp add: parse_length_96.simps [of c]
            parse_length_96.simps [of "c\<lparr>key_shift := k\<rparr>"] d d1)
  next
    case (Some bf)
    obtain b f where bf: "bf = (b, f)" by (cases bf)
    have "concat_lengths b f (c1\<lparr>key_shift := k\<rparr>)
            = (fst (concat_lengths b f c1), (snd (concat_lengths b f c1))\<lparr>key_shift := k\<rparr>)"
      by (rule "1.IH" [of r c1 bf b f]) (simp_all add: d Some bf)
    then show ?thesis
      by (simp add: parse_length_96.simps [of c]
            parse_length_96.simps [of "c\<lparr>key_shift := k\<rparr>"] d d1 Some bf)
  qed
next
  case (2 base_len flag c)
  define c1 where "c1 = skip_space c"
  have s1: "skip_space (c\<lparr>key_shift := k\<rparr>) = c1\<lparr>key_shift := k\<rparr>"
    by (simp add: c1_def)
  show ?case
  proof (cases "peek c1 = Some CHR ''^''")
    case False
    then show ?thesis
      by (simp add: concat_lengths.simps [of base_len flag c]
            concat_lengths.simps [of base_len flag "c\<lparr>key_shift := k\<rparr>"]
            s1 c1_def [symmetric])
  next
    case True
    obtain r c2 where p: "parse_length_96 (snd (get c1)) = (r, c2)"
      by (cases "parse_length_96 (snd (get c1))")
    have "parse_length_96 ((snd (get c1))\<lparr>key_shift := k\<rparr>)
            = (fst (parse_length_96 (snd (get c1))),
               (snd (parse_length_96 (snd (get c1))))\<lparr>key_shift := k\<rparr>)"
      by (rule "2.IH"(1) [of c1]) (simp_all add: c1_def [symmetric] True)
    then have p1: "parse_length_96 ((snd (get c1))\<lparr>key_shift := k\<rparr>)
                     = (r, c2\<lparr>key_shift := k\<rparr>)"
      by (simp add: p)
    show ?thesis
    proof (cases r)
      case None
      then show ?thesis
        by (simp add: concat_lengths.simps [of base_len flag c]
              concat_lengths.simps [of base_len flag "c\<lparr>key_shift := k\<rparr>"]
              s1 c1_def [symmetric] True p p1)
    next
      case (Some af)
      obtain a f1 where af: "af = (a, f1)" by (cases af)
      have "concat_lengths (base_len + a) flag (c2\<lparr>key_shift := k\<rparr>)
              = (fst (concat_lengths (base_len + a) flag c2),
                 (snd (concat_lengths (base_len + a) flag c2))\<lparr>key_shift := k\<rparr>)"
        by (rule "2.IH"(2) [of c1 r c2 af a f1])
           (simp_all add: c1_def [symmetric] True p Some af)
      then show ?thesis
        by (simp add: concat_lengths.simps [of base_len flag c]
              concat_lengths.simps [of base_len flag "c\<lparr>key_shift := k\<rparr>"]
              s1 c1_def [symmetric] True p p1 Some af)
    qed
  qed
qed

lemma ks_emit_byte [simp]: "emit_byte (c\<lparr>key_shift := k\<rparr>) v = (emit_byte c v)\<lparr>key_shift := k\<rparr>"
  by (simp add: emit_byte_def ensure_space_def set_error_def)

lemma ks_emit_word_le [simp]:
  "emit_word_le (c\<lparr>key_shift := k\<rparr>) v = (emit_word_le c v)\<lparr>key_shift := k\<rparr>"
  by (simp add: emit_word_le_def ensure_space_def set_error_def)

lemma ks_emit_octave [simp]:
  "emit_octave (c\<lparr>key_shift := k\<rparr>) n = (emit_octave c n)\<lparr>key_shift := k\<rparr>"
  by (simp add: emit_octave_def emit_byte_def ensure_space_def set_error_def)

lemma ks_make_note_header [simp]:
  "make_note_header (c\<lparr>key_shift := k\<rparr>) tone len96 tie = make_note_header c tone len96 tie"
  by (simp add: make_note_header_def)

lemma ks_emit_note [simp]:
  "emit_note (c\<lparr>key_shift := k\<rparr>) tone octave1 len96 tie
     = (emit_note c tone octave1 len96 tie)\<lparr>key_shift := k\<rparr>"
  by (simp add: emit_note_def Let_def)

lemma ks_compile_rest:
  "compile_note (c\<lparr>key_shift := k\<rparr>) (CHR ''R'')
     = (compile_note c (CHR ''R''))\<lparr>key_shift := k\<rparr>"
proof -
  obtain r c2 where p: "parse_length_96 (c\<lparr>error_col := NOERROR\<rparr>) = (r, c2)"
    by (cases "parse_length_96 (c\<lparr>error_col := NOERROR\<rparr>)")
  have p1: "parse_length_96 (c\<lparr>error_col := NOERROR, key_shift := k\<rparr>)
              = (r, c2\<lparr>key_shift := k\<rparr>)"
    using ks_parse_length_96 [where c = "c\<lparr>error_col := NOERROR\<rparr>" and k = k] p by simp
  show ?thesis
    by (simp add: compile_note_def note_tone_def toupper_def p p1 Let_def
          split: option.splits)
qed

section \<open>What the length resolver leaves alone\<close>

text \<open>
  \<open>untouched c0 c\<close>: \<open>c\<close> has the output buffer, the default lengths, the octaves,
  the transposition and the loop stack of \<open>c0\<close>. The scanner and the length resolver
  change the scan position and the error fields only.
\<close>

definition untouched :: "MML_Compiler \<Rightarrow> MML_Compiler \<Rightarrow> bool" where
  "untouched c0 c \<longleftrightarrow>
     out c = out c0 \<and> out_len c = out_len c0 \<and> out_cap c = out_cap c0
     \<and> l_len96 c = l_len96 c0 \<and> lp_len96 c = lp_len96 c0
     \<and> octave c = octave c0 \<and> octave_last c = octave_last c0
     \<and> key_shift c = key_shift c0 \<and> nest_depth c = nest_depth c0 \<and> loops c = loops c0"

lemma untouched_refl [simp]: "untouched c c"
  by (simp add: untouched_def)

lemma untouched_error_col [simp]: "untouched c0 (c\<lparr>error_col := e\<rparr>) = untouched c0 c"
  by (simp add: untouched_def)

lemma untouched_get [simp]: "untouched c0 c \<Longrightarrow> untouched c0 (snd (get c))"
  by (simp add: untouched_def get_def Let_def)

lemma untouched_set_error [simp]: "untouched c0 c \<Longrightarrow> untouched c0 (set_error c e)"
  by (simp add: untouched_def set_error_def)

lemma untouched_skip_space [simp]: "untouched c0 c \<Longrightarrow> untouched c0 (skip_space c)"
  by (induction c rule: skip_space.induct) (simp add: skip_space.simps)

lemma untouched_para_digits [simp]:
  "untouched c0 c \<Longrightarrow> untouched c0 (snd (para_digits v c))"
  by (induction v c rule: para_digits.induct) (simp add: para_digits.simps Let_def)

lemma untouched_parse_para [simp]:
  "untouched c0 c \<Longrightarrow> untouched c0 (snd (snd (parse_para c)))"
  by (simp add: parse_para_def Let_def split_beta)

lemma untouched_count_dots [simp]:
  "untouched c0 c \<Longrightarrow> untouched c0 (snd (count_dots d c))"
  by (induction d c rule: count_dots.induct) (simp add: count_dots.simps Let_def)

lemma untouched_dots_loop [simp]:
  "untouched c0 c \<Longrightarrow> untouched c0 (snd (dots_loop i l h c))"
  by (induction i l h c rule: dots_loop.induct) (simp_all add: Let_def)

lemma untouched_apply_dots [simp]:
  "untouched c0 c \<Longrightarrow> untouched c0 (snd (apply_dots c b d))"
  by (simp add: apply_dots_def split_beta split: option.splits)

lemma untouched_length_base [simp]:
  "untouched c0 c \<Longrightarrow> untouched c0 (snd (length_base c))"
  by (simp add: length_base_def Let_def split_beta)

lemma untouched_length_dotted [simp]:
  "untouched c0 c \<Longrightarrow> untouched c0 (snd (length_dotted c))"
  by (simp add: length_dotted_def Let_def split_beta split: option.splits)

lemma untouched_parse_length_96:
  "untouched c0 c \<Longrightarrow> untouched c0 (snd (parse_length_96 c))"
  and untouched_concat_lengths:
  "untouched c0 c \<Longrightarrow> untouched c0 (snd (concat_lengths base_len flag c))"
proof (induction c and base_len flag c rule: parse_length_96_concat_lengths.induct)
  case (1 c)
  obtain r c1 where d: "length_dotted c = (r, c1)" by (cases "length_dotted c")
  have u1: "untouched c0 c1"
    using untouched_length_dotted [OF "1.prems"] d by simp
  show ?case
  proof (cases r)
    case None
    with d u1 show ?thesis by (simp add: parse_length_96.simps [of c])
  next
    case (Some bf)
    obtain b f where bf: "bf = (b, f)" by (cases bf)
    have "untouched c0 (snd (concat_lengths b f c1))"
      by (rule "1.IH" [of r c1 bf b f]) (simp_all add: d Some bf u1)
    then show ?thesis by (simp add: parse_length_96.simps [of c] d Some bf)
  qed
next
  case (2 base_len flag c)
  define c1 where "c1 = skip_space c"
  have u1: "untouched c0 c1" using "2.prems" by (simp add: c1_def)
  show ?case
  proof (cases "peek c1 = Some CHR ''^''")
    case False
    then show ?thesis
      using u1 by (simp add: concat_lengths.simps [of base_len flag c] c1_def [symmetric])
  next
    case True
    obtain r c2 where p: "parse_length_96 (snd (get c1)) = (r, c2)"
      by (cases "parse_length_96 (snd (get c1))")
    have "untouched c0 (snd (parse_length_96 (snd (get c1))))"
      by (rule "2.IH"(1) [of c1]) (simp_all add: c1_def [symmetric] True u1)
    then have u2: "untouched c0 c2" by (simp add: p)
    show ?thesis
    proof (cases r)
      case None
      then show ?thesis
        using u2
        by (simp add: concat_lengths.simps [of base_len flag c] c1_def [symmetric] True p)
    next
      case (Some af)
      obtain a f1 where af: "af = (a, f1)" by (cases af)
      have "untouched c0 (snd (concat_lengths (base_len + a) flag c2))"
        by (rule "2.IH"(2) [of c1 r c2 af a f1])
           (simp_all add: c1_def [symmetric] True p Some af u2)
      then show ?thesis
        by (simp add: concat_lengths.simps [of base_len flag c] c1_def [symmetric]
              True p Some af)
    qed
  qed
qed

section \<open>Claims\<close>

lemma finish_full_buffer:
  assumes "nest_depth c = 0" and "out_cap c \<le> out_len c"
  shows "fst (mml_finish_channel c) = MML_OK"
    and "error (snd (mml_finish_channel c)) = MML_OK"
    and "out_len (snd (mml_finish_channel c)) = out_len c"
    and "out (snd (mml_finish_channel c)) = out c"
  using assms
  by (simp_all add: mml_finish_channel_def emit_byte_def ensure_space_def set_error_def Let_def)

text \<open>
  C1. With \<open>nest_depth = 0\<close>, \<open>mml_finish_channel\<close> always returns \<open>MML_OK\<close>, but the
  last byte is \<open>0xFF\<close> only when the buffer had room. On a full buffer \<open>emit_byte\<close>
  records \<open>MML_ERR_INTERNAL\<close> and writes nothing, and \<open>mml_finish_channel\<close> then
  overwrites the error with \<open>MML_OK\<close>: the sentinel is dropped and success is
  reported. Here a channel with a one-byte buffer compiles the line \<open>c\<close>, which
  fills the buffer with the byte \<open>01\<close>; finishing returns \<open>MML_OK\<close>, leaves
  \<open>MML_OK\<close> in the error field, and the output is still the single byte \<open>01\<close>.
\<close>

theorem finish_channel_drops_sentinel:
  "fst (mml_compile_line (mml_channel_init blank_buffer 1) ''c'' 1) = MML_OK
   \<and> fst (mml_finish_channel
           (snd (mml_compile_line (mml_channel_init blank_buffer 1) ''c'' 1))) = MML_OK
   \<and> error (snd (mml_finish_channel
           (snd (mml_compile_line (mml_channel_init blank_buffer 1) ''c'' 1)))) = MML_OK
   \<and> emitted (snd (mml_finish_channel
           (snd (mml_compile_line (mml_channel_init blank_buffer 1) ''c'' 1)))) = [0x01]"
  by (simp add: scanner_eval emitter_eval length_eval statement_eval upt_rec)

text \<open>
  C2. The digit loop of \<open>parse_para\<close> does not saturate. The sum is truncated to 16
  bits by the assignment to the \<open>uint16_t\<close> before it is compared with \<open>UINT16_MAX\<close>,
  so the comparison only ever sees values up to 65535 and the clamp never changes
  anything: the digits \<open>65536\<close> give the value 0, not 65535. The wrapped value is
  then used as if it had been written: the note \<open>c65540\<close> is accepted and compiled as
  \<open>c4\<close> (65540 wraps to 4, a quarter note, the default length: header \<open>01\<close> alone).
\<close>

theorem parse_para_wraps:
  "fst (snd (parse_para ((mml_channel_init blank_buffer CH_BUF_SIZE)
                           \<lparr>src := ''65536'', len := 5\<rparr>))) = 0
   \<and> fst (mml_compile_line (mml_channel_init blank_buffer CH_BUF_SIZE) ''c65540'' 1) = MML_OK
   \<and> emitted (snd (mml_compile_line (mml_channel_init blank_buffer CH_BUF_SIZE) ''c65540'' 1))
       = [0x01]"
  by (simp add: scanner_eval emitter_eval length_eval statement_eval upt_rec)

text \<open>
  C5. From the initial channel state, whatever the buffer holds, the line
  \<open>[ c d ]3\<close> compiles without error, the channel finishes without error, and the
  output is exactly \<open>F0 03 01 03 F1 FC FF\<close>.
\<close>

theorem loop_scenario_bytes:
  "fst (mml_compile_line (mml_channel_init out_buf CH_BUF_SIZE) ''[ c d ]3'' n) = MML_OK
   \<and> fst (mml_finish_channel
           (snd (mml_compile_line (mml_channel_init out_buf CH_BUF_SIZE) ''[ c d ]3'' n)))
       = MML_OK
   \<and> emitted (snd (mml_finish_channel
           (snd (mml_compile_line (mml_channel_init out_buf CH_BUF_SIZE) ''[ c d ]3'' n))))
       = [0xF0, 0x03, 0x01, 0x03, 0xF1, 0xFC, 0xFF]"
  by (simp add: scanner_eval emitter_eval length_eval statement_eval upt_rec)

text \<open>
  C6. From the initial channel state, the line \<open>c&d\<close> compiles and finishes without
  error and the output is exactly \<open>41 03 FF\<close>: the tie bit is on the first note.
\<close>

theorem tie_scenario_bytes:
  "fst (mml_compile_line (mml_channel_init out_buf CH_BUF_SIZE) ''c&d'' n) = MML_OK
   \<and> fst (mml_finish_channel
           (snd (mml_compile_line (mml_channel_init out_buf CH_BUF_SIZE) ''c&d'' n)))
       = MML_OK
   \<and> emitted (snd (mml_finish_channel
           (snd (mml_compile_line (mml_channel_init out_buf CH_BUF_SIZE) ''c&d'' n))))
       = [0x41, 0x03, 0xFF]"
  by (simp add: scanner_eval emitter_eval length_eval statement_eval upt_rec)

lemma dots_loop_odd: "odd half \<Longrightarrow> fst (dots_loop (Suc i) len96 half c) = None"
  by (simp add: odd_iff_mod_2_eq_one)

text \<open>
  C4, as stated: compiling \<open>L3.\<close> fails with \<open>FUNC_RANGE\<close>. It does not: the test
  for an odd half is on ticks, and \<open>L3\<close> is 32 ticks. The line compiles, the default
  length becomes 48 ticks and the output is \<open>F9 30\<close>.
\<close>

theorem dotted_L3_is_accepted:
  "fst (mml_compile_line (mml_channel_init blank_buffer CH_BUF_SIZE) ''L3.'' 1) = MML_OK
   \<and> l_len96 (snd (mml_compile_line (mml_channel_init blank_buffer CH_BUF_SIZE) ''L3.'' 1)) = 48
   \<and> emitted (snd (mml_compile_line (mml_channel_init blank_buffer CH_BUF_SIZE) ''L3.'' 1))
       = [0xF9, 0x30]"
  by (simp add: scanner_eval emitter_eval length_eval statement_eval upt_rec)

text \<open>
  C4, amended: a dot on a base length that is an odd number of ticks is rejected.
  \<open>apply_dots\<close> fails on every odd base length, and compiling \<open>L32.\<close> (a base of 3
  ticks) fails with \<open>FUNC_RANGE\<close> in every channel state.
\<close>

theorem dot_on_odd_ticks_rejected:
  "fst (mml_compile_line c ''L32.'' n) = MML_ERR_FUNC_RANGE
   \<and> (odd base_len96 \<longrightarrow> fst (apply_dots c1 base_len96 (Suc dots)) = None)"
proof
  show "fst (mml_compile_line c ''L32.'' n) = MML_ERR_FUNC_RANGE"
    by (simp add: scanner_eval emitter_eval length_eval statement_eval)
  show "odd base_len96 \<longrightarrow> fst (apply_dots c1 base_len96 (Suc dots)) = None"
  proof
    assume "odd base_len96"
    then have "fst (dots_loop (Suc dots) base_len96 base_len96 c1) = None"
      by (rule dots_loop_odd)
    then show "fst (apply_dots c1 base_len96 (Suc dots)) = None"
      by (cases "dots_loop (Suc dots) base_len96 base_len96 c1")
         (simp add: apply_dots_def del: dots_loop.simps)
  qed
qed

theorem dot_on_odd_ticks_rejected_witness:
  "odd (3 :: int)
   \<and> fst (apply_dots (mml_channel_init blank_buffer CH_BUF_SIZE) 3 (Suc 0)) = None
   \<and> fst (mml_compile_line (mml_channel_init blank_buffer CH_BUF_SIZE) ''L32.'' 1)
       = MML_ERR_FUNC_RANGE"
proof -
  have h: "odd (3 :: int)" by simp
  from dot_on_odd_ticks_rejected
         [where c = "mml_channel_init blank_buffer CH_BUF_SIZE" and n = 1
            and ?base_len96.0 = 3 and ?c1.0 = "mml_channel_init blank_buffer CH_BUF_SIZE"
            and dots = 0]
  show ?thesis using h by blast
qed

text \<open>
  C7, as stated: an error recorded for a channel survives the next call of
  \<open>mml_compile_line\<close>, and later lines do nothing. It does not: the line \<open>?\<close> leaves
  \<open>MML_ERR_SYNTAX\<close> in the channel, and the next line \<open>c\<close> on the same channel
  returns \<open>MML_OK\<close> and emits its note.
\<close>

theorem error_cleared_by_next_line:
  "fst (mml_compile_line (mml_channel_init blank_buffer CH_BUF_SIZE) ''?'' 1) = MML_ERR_SYNTAX
   \<and> fst (mml_compile_line
           (snd (mml_compile_line (mml_channel_init blank_buffer CH_BUF_SIZE) ''?'' 1))
           ''c'' 2) = MML_OK
   \<and> emitted (snd (mml_compile_line
           (snd (mml_compile_line (mml_channel_init blank_buffer CH_BUF_SIZE) ''?'' 1))
           ''c'' 2)) = [0x01]"
  by (simp add: scanner_eval emitter_eval length_eval statement_eval upt_rec)

text \<open>
  C7, amended: the error is sticky within a line only. \<open>mml_compile_line\<close> resets
  the error fields at the start of every line, so its result does not depend on the
  error an earlier line left; while an error is pending, \<open>set_error\<close> keeps it and
  the statement loop runs no further statement.
\<close>

theorem error_sticky_within_line_only:
  "mml_compile_line (c\<lparr>error := e, error_col := k\<rparr>) s n = mml_compile_line c s n
   \<and> (error c \<noteq> MML_OK \<longrightarrow> set_error c e1 = c \<and> compile_loop c = c)"
proof (intro conjI impI)
  show "mml_compile_line (c\<lparr>error := e, error_col := k\<rparr>) s n = mml_compile_line c s n"
    by (simp add: mml_compile_line_def)
next
  assume "error c \<noteq> MML_OK"
  then show "set_error c e1 = c"
    by (simp add: set_error_def)
next
  assume "error c \<noteq> MML_OK"
  then show "compile_loop c = c"
    by (simp add: compile_loop.simps)
qed

theorem error_sticky_within_line_only_witness:
  "error (snd (mml_compile_line (mml_channel_init blank_buffer CH_BUF_SIZE) ''?c'' 1)) \<noteq> MML_OK
   \<and> set_error (snd (mml_compile_line (mml_channel_init blank_buffer CH_BUF_SIZE) ''?c'' 1))
         MML_ERR_OCTAVE
       = snd (mml_compile_line (mml_channel_init blank_buffer CH_BUF_SIZE) ''?c'' 1)
   \<and> compile_loop (snd (mml_compile_line (mml_channel_init blank_buffer CH_BUF_SIZE) ''?c'' 1))
       = snd (mml_compile_line (mml_channel_init blank_buffer CH_BUF_SIZE) ''?c'' 1)
   \<and> emitted (snd (mml_compile_line (mml_channel_init blank_buffer CH_BUF_SIZE) ''?c'' 1)) = []"
proof -
  have h: "error (snd (mml_compile_line (mml_channel_init blank_buffer CH_BUF_SIZE) ''?c'' 1))
             \<noteq> MML_OK"
    by (simp add: scanner_eval emitter_eval length_eval statement_eval)
  have e: "emitted (snd (mml_compile_line (mml_channel_init blank_buffer CH_BUF_SIZE) ''?c'' 1))
             = []"
    by (simp add: scanner_eval emitter_eval length_eval statement_eval)
  from error_sticky_within_line_only
         [where c = "snd (mml_compile_line (mml_channel_init blank_buffer CH_BUF_SIZE) ''?c'' 1)"
            and ?e1.0 = MML_ERR_OCTAVE]
  show ?thesis using h e by blast
qed

lemma emitted_emit_byte:
  "out_len c < out_cap c \<Longrightarrow> emitted (emit_byte c v) = emitted c @ [v]"
  by (simp add: emitted_def emit_byte_def ensure_space_def)

lemma emitted_emit_word_le:
  "out_len c + 2 \<le> out_cap c \<Longrightarrow>
     emitted (emit_word_le c v) = emitted c @ [ucast (v AND 0xFF), ucast (drop_bit 8 v)]"
  by (simp add: emitted_def emit_word_le_def ensure_space_def)

lemma emit_byte_fields [simp]:
  "out_cap (emit_byte c v) = out_cap c"
  "l_len96 (emit_byte c v) = l_len96 c"
  "lp_len96 (emit_byte c v) = lp_len96 c"
  by (simp_all add: emit_byte_def ensure_space_def set_error_def)

lemma out_len_emit_byte: "out_len c < out_cap c \<Longrightarrow> out_len (emit_byte c v) = out_len c + 1"
  by (simp add: emit_byte_def ensure_space_def)

lemma note_header_low_nibble:
  assumes "0 \<le> tone" and "tone \<le> 12"
  shows "make_note_header c tone len96 tie AND 0x0F = of_int tone"
proof -
  from assms have "tone = 0 \<or> tone = 1 \<or> tone = 2 \<or> tone = 3 \<or> tone = 4 \<or> tone = 5
      \<or> tone = 6 \<or> tone = 7 \<or> tone = 8 \<or> tone = 9 \<or> tone = 10 \<or> tone = 11 \<or> tone = 12"
    by arith
  then show ?thesis
    by (elim disjE) (simp_all add: make_note_header_def)
qed

lemma note_header_length_bits:
  assumes "0 \<le> tone" and "tone \<le> 12"
  shows "drop_bit 4 (make_note_header c tone len96 tie) AND 0x03 =
           (if len96 = l_len96 c then 0
            else if len96 = lp_len96 c then 1
            else if len96 \<le> 255 then 2 else 3)"
proof -
  from assms have "tone = 0 \<or> tone = 1 \<or> tone = 2 \<or> tone = 3 \<or> tone = 4 \<or> tone = 5
      \<or> tone = 6 \<or> tone = 7 \<or> tone = 8 \<or> tone = 9 \<or> tone = 10 \<or> tone = 11 \<or> tone = 12"
    by arith
  then show ?thesis
    by (elim disjE) (simp_all add: make_note_header_def)
qed

lemma make_note_header_cong:
  "l_len96 c1 = l_len96 c \<Longrightarrow> lp_len96 c1 = lp_len96 c \<Longrightarrow>
     make_note_header c1 tone len96 tie = make_note_header c tone len96 tie"
  by (simp add: make_note_header_def)

lemma emit_octave_fields [simp]:
  "out_cap (emit_octave c n) = out_cap c"
  "l_len96 (emit_octave c n) = l_len96 c"
  "lp_len96 (emit_octave c n) = lp_len96 c"
  by (simp_all add: emit_octave_def set_error_def)

lemma emit_octave_bytes:
  assumes "1 \<le> n" and "n \<le> 8" and "out_len c < out_cap c"
  shows "emitted (emit_octave c n) = emitted c @ [0x80 + of_int n]"
    and "out_len (emit_octave c n) = out_len c + 1"
  using assms
  by (simp_all add: emit_octave_def emitted_def emit_byte_def ensure_space_def)

lemma emit_note_bytes:
  assumes "1 \<le> octave1" and "octave1 \<le> 8" and "out_len c + 4 \<le> out_cap c"
  shows "emitted (emit_note c tone octave1 len96 tie) =
           emitted c
           @ (if octave_last c \<noteq> octave1 then [0x80 + of_int octave1] else [])
           @ [make_note_header c tone len96 tie]
           @ (if len96 = l_len96 c \<or> len96 = lp_len96 c then []
              else if len96 \<le> 255 then [of_int len96]
              else [ucast ((of_int len96 :: 16 word) AND 0xFF),
                    ucast (drop_bit 8 (of_int len96 :: 16 word))])"
proof -
  define c1 where "c1 = (if octave_last c \<noteq> octave1 then emit_octave c octave1 else c)"
  have lt0: "out_len c < out_cap c" using assms by simp
  have c1f: "out_cap c1 = out_cap c" "l_len96 c1 = l_len96 c" "lp_len96 c1 = lp_len96 c"
    by (simp_all add: c1_def)
  have c1e: "emitted c1 =
               emitted c @ (if octave_last c \<noteq> octave1 then [0x80 + of_int octave1] else [])"
    by (simp add: c1_def emit_octave_bytes(1) [OF assms(1,2) lt0])
  have c1l: "out_len c1 \<le> out_len c + 1"
    by (simp add: c1_def emit_octave_bytes(2) [OF assms(1,2) lt0])
  define c2 where "c2 = emit_byte c1 (make_note_header c1 tone len96 tie)"
  have h: "make_note_header c1 tone len96 tie = make_note_header c tone len96 tie"
    by (rule make_note_header_cong) (rule c1f)+
  have lt1: "out_len c1 < out_cap c1" using c1l c1f(1) assms(3) by simp
  have c2e: "emitted c2 = emitted c1 @ [make_note_header c tone len96 tie]"
    by (simp add: c2_def h emitted_emit_byte [OF lt1])
  have c2l: "out_len c2 = out_len c1 + 1"
    by (simp add: c2_def out_len_emit_byte [OF lt1])
  have c2f: "out_cap c2 = out_cap c" "l_len96 c2 = l_len96 c" "lp_len96 c2 = lp_len96 c"
    by (simp_all add: c2_def c1f)
  have lt2: "out_len c2 + 2 \<le> out_cap c2" using c1l c2l c2f(1) assms(3) by simp
  then have lt3: "out_len c2 < out_cap c2" by simp
  have "emit_note c tone octave1 len96 tie =
          (if len96 \<noteq> l_len96 c2 \<and> len96 \<noteq> lp_len96 c2
           then if len96 \<le> 255 then emit_byte c2 (of_int len96)
                else emit_word_le c2 (of_int len96)
           else c2)"
    by (simp add: emit_note_def Let_def c1_def c2_def)
  then show ?thesis
    by (simp add: c2f c2e c1e emitted_emit_byte [OF lt3] emitted_emit_word_le [OF lt2])
qed

lemma error_get [simp]: "error (snd (get c)) = error c"
  by (simp add: get_def Let_def)

lemma error_skip_space [simp]: "error (skip_space c) = error c"
  by (induction c rule: skip_space.induct) (simp add: skip_space.simps)

lemma error_para_digits [simp]: "error (snd (para_digits v c)) = error c"
  by (induction v c rule: para_digits.induct) (simp add: para_digits.simps Let_def)

lemma error_parse_para [simp]: "error (snd (snd (parse_para c))) = error c"
  by (simp add: parse_para_def Let_def split_beta)

lemma error_count_dots [simp]: "error (snd (count_dots d c)) = error c"
  by (induction d c rule: count_dots.induct) (simp add: count_dots.simps Let_def)

lemma error_dots_loop [simp]: "error (snd (dots_loop i l h c)) = error c"
  by (induction i l h c rule: dots_loop.induct) (simp_all add: Let_def)

lemma error_apply_dots [simp]: "error (snd (apply_dots c b d)) = error c"
  by (simp add: apply_dots_def split_beta split: option.splits)

lemma error_set_error:
  "error (set_error c e) = (if error c = MML_OK then e else error c)"
  by (simp add: set_error_def)

lemma error_length_base:
  "error (snd (length_base c)) = error c \<or> error (snd (length_base c)) = MML_ERR_FUNC_RANGE"
  by (simp add: length_base_def Let_def split_beta error_set_error)

lemma error_length_dotted:
  "error (snd (length_dotted c)) = error c
   \<or> error (snd (length_dotted c)) = MML_ERR_FUNC_RANGE"
proof -
  obtain r c1 where b: "length_base c = (r, c1)" by (cases "length_base c")
  have "error c1 = error c \<or> error c1 = MML_ERR_FUNC_RANGE"
    using error_length_base [of c] b by simp
  then show ?thesis
    by (auto simp: length_dotted_def b split_beta error_set_error split: option.splits)
qed

lemma error_parse_length_96:
  "error (snd (parse_length_96 c)) = error c
   \<or> error (snd (parse_length_96 c)) = MML_ERR_FUNC_RANGE"
  and error_concat_lengths:
  "error (snd (concat_lengths base_len flag c)) = error c
   \<or> error (snd (concat_lengths base_len flag c)) = MML_ERR_FUNC_RANGE"
proof (induction c and base_len flag c rule: parse_length_96_concat_lengths.induct)
  case (1 c)
  obtain r c1 where d: "length_dotted c = (r, c1)" by (cases "length_dotted c")
  have e1: "error c1 = error c \<or> error c1 = MML_ERR_FUNC_RANGE"
    using error_length_dotted [of c] d by simp
  show ?case
  proof (cases r)
    case None
    with d e1 show ?thesis by (simp add: parse_length_96.simps)
  next
    case (Some bf)
    obtain b f where bf: "bf = (b, f)" by (cases bf)
    have "error (snd (concat_lengths b f c1)) = error c1
          \<or> error (snd (concat_lengths b f c1)) = MML_ERR_FUNC_RANGE"
      by (rule "1.IH" [of r c1 bf b f]) (simp_all add: d Some bf)
    moreover have "parse_length_96 c = concat_lengths b f c1"
      by (simp add: parse_length_96.simps d Some bf)
    ultimately show ?thesis using e1 by auto
  qed
next
  case (2 base_len flag c)
  define c1 where "c1 = skip_space c"
  have e1: "error c1 = error c" by (simp add: c1_def)
  show ?case
  proof (cases "peek c1 = Some CHR ''^''")
    case False
    then show ?thesis
      by (simp add: concat_lengths.simps [of base_len flag c] c1_def [symmetric] e1)
  next
    case True
    obtain r c2 where p: "parse_length_96 (snd (get c1)) = (r, c2)"
      by (cases "parse_length_96 (snd (get c1))")
    have "error (snd (parse_length_96 (snd (get c1)))) = error (snd (get c1))
          \<or> error (snd (parse_length_96 (snd (get c1)))) = MML_ERR_FUNC_RANGE"
      by (rule "2.IH"(1) [of c1]) (simp_all add: c1_def [symmetric] True)
    then have e2: "error c2 = error c \<or> error c2 = MML_ERR_FUNC_RANGE"
      using p e1 by simp
    show ?thesis
    proof (cases r)
      case None
      then show ?thesis
        using e2
        by (simp add: concat_lengths.simps [of base_len flag c] c1_def [symmetric] True p)
    next
      case (Some af)
      obtain a f1 where af: "af = (a, f1)" by (cases af)
      have "error (snd (concat_lengths (base_len + a) flag c2)) = error c2
            \<or> error (snd (concat_lengths (base_len + a) flag c2)) = MML_ERR_FUNC_RANGE"
        by (rule "2.IH"(2) [of c1 r c2 af a f1])
           (simp_all add: c1_def [symmetric] True p Some af)
      moreover have "concat_lengths base_len flag c = concat_lengths (base_len + a) flag c2"
        by (simp add: concat_lengths.simps [of base_len flag c] c1_def [symmetric]
                      True p Some af)
      ultimately show ?thesis using e2 by auto
    qed
  qed
qed

lemma error_emit_byte:
  "error (emit_byte c v) = error c \<or> error (emit_byte c v) = MML_ERR_INTERNAL"
  by (simp add: emit_byte_def ensure_space_def set_error_def)

lemma error_emit_word_le:
  "error (emit_word_le c v) = error c \<or> error (emit_word_le c v) = MML_ERR_INTERNAL"
  by (simp add: emit_word_le_def ensure_space_def set_error_def)

lemma error_emit_octave:
  "error (emit_octave c n) = error c \<or> error (emit_octave c n) = MML_ERR_INTERNAL
   \<or> error (emit_octave c n) = MML_ERR_OCTAVE"
  by (simp add: emit_octave_def emit_byte_def ensure_space_def set_error_def)

lemma error_emit_note:
  "error (emit_note c tone octave1 len96 tie) = MML_ERR_NOTE_OVERFLOW \<Longrightarrow>
     error c = MML_ERR_NOTE_OVERFLOW"
proof -
  assume a: "error (emit_note c tone octave1 len96 tie) = MML_ERR_NOTE_OVERFLOW"
  define c1 where "c1 = (if octave_last c \<noteq> octave1 then emit_octave c octave1 else c)"
  define c2 where "c2 = emit_byte c1 (make_note_header c1 tone len96 tie)"
  have e: "emit_note c tone octave1 len96 tie = c2
           \<or> emit_note c tone octave1 len96 tie = emit_byte c2 (of_int len96)
           \<or> emit_note c tone octave1 len96 tie = emit_word_le c2 (of_int len96)"
    by (simp add: emit_note_def Let_def c1_def c2_def)
  have "error c2 = MML_ERR_NOTE_OVERFLOW"
    using a e error_emit_byte [of c2 "of_int len96"] error_emit_word_le [of c2 "of_int len96"]
    by auto
  then have "error c1 = MML_ERR_NOTE_OVERFLOW"
    using error_emit_byte [of c1 "make_note_header c1 tone len96 tie"] by (auto simp: c2_def)
  then show ?thesis
    using error_emit_octave [of c octave1] by (auto simp: c1_def split: if_splits)
qed

text \<open>A length that resolves leaves the error state as it was.\<close>

lemma error_length_base_Some:
  assumes "fst (length_base c) = Some x"
  shows "error (snd (length_base c)) = error c"
proof -
  obtain flag val c1 where p: "parse_para c = (flag, val, c1)"
    by (cases "parse_para c") auto
  have "error c1 = error c"
    using error_parse_para [of c] p by simp
  with assms show ?thesis
    by (auto simp: length_base_def p Let_def split: if_splits)
qed

lemma error_length_dotted_Some:
  assumes "fst (length_dotted c) = Some x"
  shows "error (snd (length_dotted c)) = error c"
proof -
  obtain r c1 where b: "length_base c = (r, c1)" by (cases "length_base c")
  from assms b obtain bf where r: "r = Some bf"
    by (cases r) (simp_all add: length_dotted_def)
  obtain base_len flag where bf: "bf = (base_len, flag)" by (cases bf)
  have e1: "error c1 = error c"
    using error_length_base_Some [of c bf] b r by simp
  obtain d c2 where cd: "count_dots 0 (c1\<lparr>error_col := col c1\<rparr>) = (d, c2)"
    by (cases "count_dots 0 (c1\<lparr>error_col := col c1\<rparr>)")
  have e2: "error c2 = error c"
    using error_count_dots [of 0 "c1\<lparr>error_col := col c1\<rparr>"] cd e1 by simp
  obtain r3 c3 where ad: "apply_dots (c2\<lparr>error_col := error_col c2 + 1\<rparr>) base_len d = (r3, c3)"
    by (cases "apply_dots (c2\<lparr>error_col := error_col c2 + 1\<rparr>) base_len d")
  have e3: "error c3 = error c"
    using error_apply_dots [of "c2\<lparr>error_col := error_col c2 + 1\<rparr>" base_len d] ad e2 by simp
  show ?thesis
    using assms e2 e3
    by (simp add: length_dotted_def b r bf cd ad split: if_splits option.splits)
qed

lemma error_parse_length_96_Some:
  "fst (parse_length_96 c) = Some x \<Longrightarrow> error (snd (parse_length_96 c)) = error c"
  and error_concat_lengths_Some:
  "fst (concat_lengths base_len flag c) = Some x \<Longrightarrow>
     error (snd (concat_lengths base_len flag c)) = error c"
proof (induction c and base_len flag c arbitrary: x and x
       rule: parse_length_96_concat_lengths.induct)
  case (1 c)
  obtain r c1 where d: "length_dotted c = (r, c1)" by (cases "length_dotted c")
  from "1.prems" d obtain bf where r: "r = Some bf"
    by (cases r) (simp_all add: parse_length_96.simps [of c])
  obtain b f where bf: "bf = (b, f)" by (cases bf)
  have e1: "error c1 = error c"
    using error_length_dotted_Some [of c bf] d r by simp
  have eq: "parse_length_96 c = concat_lengths b f c1"
    by (simp add: parse_length_96.simps [of c] d r bf)
  have "error (snd (concat_lengths b f c1)) = error c1"
    by (rule "1.IH" [of r c1 bf b f x]) (use "1.prems" eq in \<open>simp_all add: d r bf\<close>)
  with e1 eq show ?case by simp
next
  case (2 base_len flag c)
  define c1 where "c1 = skip_space c"
  have e1: "error c1 = error c" by (simp add: c1_def)
  show ?case
  proof (cases "peek c1 = Some CHR ''^''")
    case False
    then show ?thesis
      by (simp add: concat_lengths.simps [of base_len flag c] c1_def [symmetric] e1)
  next
    case True
    obtain r c2 where p: "parse_length_96 (snd (get c1)) = (r, c2)"
      by (cases "parse_length_96 (snd (get c1))")
    from "2.prems" p True obtain af where r: "r = Some af"
      by (cases r)
         (simp_all add: concat_lengths.simps [of base_len flag c] c1_def [symmetric])
    obtain a f1 where af: "af = (a, f1)" by (cases af)
    have "error (snd (parse_length_96 (snd (get c1)))) = error (snd (get c1))"
      by (rule "2.IH"(1) [of c1 af]) (simp_all add: c1_def [symmetric] True p r)
    then have e2: "error c2 = error c" using p e1 by simp
    have eq: "concat_lengths base_len flag c = concat_lengths (base_len + a) flag c2"
      by (simp add: concat_lengths.simps [of base_len flag c] c1_def [symmetric] True p r af)
    have "error (snd (concat_lengths (base_len + a) flag c2)) = error c2"
      by (rule "2.IH"(2) [of c1 r c2 af a f1 x])
         (use "2.prems" eq in \<open>simp_all add: c1_def [symmetric] True p r af\<close>)
    with e2 eq show ?thesis by simp
  qed
qed

lemma error_compile_rest:
  assumes "error c \<noteq> MML_ERR_NOTE_OVERFLOW"
  shows "error (compile_note c (CHR ''R'')) \<noteq> MML_ERR_NOTE_OVERFLOW"
proof -
  obtain r c2 where p: "parse_length_96 (c\<lparr>error_col := NOERROR\<rparr>) = (r, c2)"
    by (cases "parse_length_96 (c\<lparr>error_col := NOERROR\<rparr>)")
  have e2: "error c2 \<noteq> MML_ERR_NOTE_OVERFLOW"
    using error_parse_length_96 [of "c\<lparr>error_col := NOERROR\<rparr>"] p assms by auto
  show ?thesis
  proof (cases r)
    case None
    with p e2 show ?thesis
      by (simp add: compile_note_def note_tone_def toupper_def)
  next
    case (Some lf)
    obtain len96 flag where lf: "lf = (len96, flag)" by (cases lf)
    define c4 where "c4 = (if peek (skip_space c2) = Some CHR ''&''
                            then snd (get (skip_space c2)) else skip_space c2)"
    have e4: "error c4 \<noteq> MML_ERR_NOTE_OVERFLOW"
      using e2 by (simp add: c4_def)
    have "compile_note c (CHR ''R'') = set_error c2 MML_ERR_FUNC_RANGE
          \<or> compile_note c (CHR ''R'') =
               emit_note c4 0 (octave c) len96 (peek (skip_space c2) = Some CHR ''&'')"
      by (simp add: compile_note_def note_tone_def toupper_def p Some lf Let_def c4_def)
    then show ?thesis
      using e2 e4 error_emit_note [of c4 0 "octave c" len96 "peek (skip_space c2) = Some CHR ''&''"]
      by (auto simp: error_set_error split: if_splits)
  qed
qed

text \<open>
  C10. A rest never applies \<open>key_shift\<close>, whatever its value: the tone step yields
  tone 0 and the octave it was given, without touching the state; compiling a rest
  from a state with any other \<open>key_shift\<close> gives the same state up to that field;
  \<open>compile_note\<close> on \<open>R\<close> is the length, tie and emission part run with tone 0 and
  the logical octave \<open>octave c\<close>, which is the one compared with \<open>octave_last\<close>;
  the header of a rest has the low nibble 0; and a rest does not raise
  \<open>NOTE_OVERFLOW\<close>.
\<close>

theorem rest_ignores_key_shift:
  "note_tone (c\<lparr>key_shift := k\<rparr>) (CHR ''R'') octave0 = (Some (0, octave0), c\<lparr>key_shift := k\<rparr>)
   \<and> compile_note (c\<lparr>key_shift := k\<rparr>) (CHR ''R'')
       = (compile_note c (CHR ''R''))\<lparr>key_shift := k\<rparr>
   \<and> compile_note c (CHR ''R'') =
       (case parse_length_96 (c\<lparr>error_col := NOERROR\<rparr>) of
          (None, c2) \<Rightarrow> c2
        | (Some (len96, flag), c2) \<Rightarrow>
            if flag AND PARA_F_PLUS \<noteq> 0 then set_error c2 MML_ERR_FUNC_RANGE
            else if flag AND PARA_F_MINUS \<noteq> 0 then set_error c2 MML_ERR_FUNC_RANGE
            else let c3 = skip_space c2;
                     (tie, c4) = (if peek c3 = Some CHR ''&''
                                  then (True, snd (get c3)) else (False, c3))
                 in emit_note c4 0 (octave c) len96 tie)
   \<and> make_note_header c1 0 L tie1 AND 0x0F = 0
   \<and> (error c \<noteq> MML_ERR_NOTE_OVERFLOW \<longrightarrow>
        error (compile_note c (CHR ''R'')) \<noteq> MML_ERR_NOTE_OVERFLOW)"
proof (intro conjI)
  show "note_tone (c\<lparr>key_shift := k\<rparr>) (CHR ''R'') octave0
          = (Some (0, octave0), c\<lparr>key_shift := k\<rparr>)"
    by (simp add: note_tone_def)
  show "compile_note (c\<lparr>key_shift := k\<rparr>) (CHR ''R'')
          = (compile_note c (CHR ''R''))\<lparr>key_shift := k\<rparr>"
    by (rule ks_compile_rest)
  show "compile_note c (CHR ''R'') =
       (case parse_length_96 (c\<lparr>error_col := NOERROR\<rparr>) of
          (None, c2) \<Rightarrow> c2
        | (Some (len96, flag), c2) \<Rightarrow>
            if flag AND PARA_F_PLUS \<noteq> 0 then set_error c2 MML_ERR_FUNC_RANGE
            else if flag AND PARA_F_MINUS \<noteq> 0 then set_error c2 MML_ERR_FUNC_RANGE
            else let c3 = skip_space c2;
                     (tie, c4) = (if peek c3 = Some CHR ''&''
                                  then (True, snd (get c3)) else (False, c3))
                 in emit_note c4 0 (octave c) len96 tie)"
    by (simp add: compile_note_def note_tone_def toupper_def)
  show "make_note_header c1 0 L tie1 AND 0x0F = 0"
    using note_header_low_nibble [of 0 c1 L tie1] by simp
  show "error c \<noteq> MML_ERR_NOTE_OVERFLOW \<longrightarrow>
        error (compile_note c (CHR ''R'')) \<noteq> MML_ERR_NOTE_OVERFLOW"
    using error_compile_rest [of c] by blast
qed

theorem rest_ignores_key_shift_witness:
  "error ((mml_channel_init blank_buffer CH_BUF_SIZE)\<lparr>octave := 8, key_shift := 12\<rparr>)
     \<noteq> MML_ERR_NOTE_OVERFLOW
   \<and> error (compile_note
              ((mml_channel_init blank_buffer CH_BUF_SIZE)\<lparr>octave := 8, key_shift := 12\<rparr>)
              (CHR ''R'')) \<noteq> MML_ERR_NOTE_OVERFLOW
   \<and> emitted (compile_note
              ((mml_channel_init blank_buffer CH_BUF_SIZE)\<lparr>octave := 8, key_shift := 12\<rparr>)
              (CHR ''R'')) = [0x88, 0x00]
   \<and> error (compile_note
              ((mml_channel_init blank_buffer CH_BUF_SIZE)\<lparr>octave := 8, key_shift := 12\<rparr>)
              (CHR ''B'')) = MML_ERR_NOTE_OVERFLOW"
proof -
  have h: "error ((mml_channel_init blank_buffer CH_BUF_SIZE)\<lparr>octave := 8, key_shift := 12\<rparr>)
             \<noteq> MML_ERR_NOTE_OVERFLOW"
    by (simp add: mml_channel_init_def)
  have e: "emitted (compile_note
              ((mml_channel_init blank_buffer CH_BUF_SIZE)\<lparr>octave := 8, key_shift := 12\<rparr>)
              (CHR ''R'')) = [0x88, 0x00]"
    by (simp add: scanner_eval emitter_eval length_eval statement_eval upt_rec)
  have b: "error (compile_note
              ((mml_channel_init blank_buffer CH_BUF_SIZE)\<lparr>octave := 8, key_shift := 12\<rparr>)
              (CHR ''B'')) = MML_ERR_NOTE_OVERFLOW"
    by (simp add: scanner_eval emitter_eval length_eval statement_eval)
  from rest_ignores_key_shift
         [where c = "(mml_channel_init blank_buffer CH_BUF_SIZE)\<lparr>octave := 8, key_shift := 12\<rparr>"]
  show ?thesis using h e b by blast
qed

text \<open>
  Emitting with room in the buffer leaves the error state as it was, and a line
  read to its end stops the statement loop.
\<close>

lemma reads_Nil_pos: "reads c [] \<Longrightarrow> len c \<le> pos c"
  by (auto simp: reads_def)

lemma error_emit_byte_room: "out_len c < out_cap c \<Longrightarrow> error (emit_byte c v) = error c"
  by (simp add: emit_byte_def ensure_space_def)

lemma error_emit_word_le_room:
  "out_len c + 2 \<le> out_cap c \<Longrightarrow> error (emit_word_le c v) = error c"
  by (simp add: emit_word_le_def ensure_space_def)

lemma error_emit_note_room:
  assumes "octave_last c = octave1" and "out_len c + 3 \<le> out_cap c"
  shows "error (emit_note c tone octave1 len96 tie) = error c"
proof -
  define c2 where "c2 = emit_byte c (make_note_header c tone len96 tie)"
  have lt: "out_len c < out_cap c" using assms(2) by simp
  have e2: "error c2 = error c"
    by (simp add: c2_def error_emit_byte_room [OF lt])
  have l2: "out_len c2 = out_len c + 1" "out_cap c2 = out_cap c"
    by (simp_all add: c2_def out_len_emit_byte [OF lt])
  have r2: "out_len c2 + 2 \<le> out_cap c2" "out_len c2 < out_cap c2"
    using l2 assms(2) by simp_all
  have "emit_note c tone octave1 len96 tie = c2
        \<or> emit_note c tone octave1 len96 tie = emit_byte c2 (of_int len96)
        \<or> emit_note c tone octave1 len96 tie = emit_word_le c2 (of_int len96)"
    by (simp add: emit_note_def Let_def c2_def assms(1))
  then show ?thesis
    using e2 error_emit_byte_room [OF r2(2)] error_emit_word_le_room [OF r2(1)] by auto
qed

text \<open>
  What a note leaves in the buffer. \<open>emit_note\<close> that ends without error has found
  room for each of its bytes and an octave from 1 to 8, and the length resolver and
  the tone step leave the buffer and the default lengths alone; so every note or
  rest that \<open>compile_note\<close> compiles without error appends the octave byte if the
  octave changed, then the header made from the tone and the length the code
  resolved, then the length bytes. The tone is 0 for a rest and from 1 to 12
  otherwise, as long as \<open>key_shift\<close> is within the range the \<open>_\<close> command accepts.
\<close>

lemma untouched_note_accidental:
  "untouched c0 c \<Longrightarrow> untouched c0 (snd (note_accidental c t))"
  by (simp add: note_accidental_def Let_def split_beta)

lemma error_note_accidental: "error (snd (note_accidental c t)) = error c"
  by (simp add: note_accidental_def Let_def split_beta)

lemma note_accidental_range:
  "1 \<le> fst (note_accidental c t) \<and> fst (note_accidental c t) \<le> 12"
  by (simp add: note_accidental_def Let_def split_beta)

lemma note_key_shift_Some:
  assumes "note_key_shift c t oct = (Some (tone, octave1), c1)"
    and "1 \<le> t" and "t \<le> 12" and "- 12 \<le> key_shift c" and "key_shift c \<le> 12"
  shows "c1 = c" and "1 \<le> tone" and "tone \<le> 12"
  using assms
  by (auto simp: note_key_shift_def Let_def split: if_splits)

lemma note_tone_Some:
  assumes nt: "note_tone c ch oct = (Some (tone, octave1), c1)"
    and k: "- 12 \<le> key_shift c" "key_shift c \<le> 12"
  shows "untouched c c1" and "error c1 = error c"
    and "if ch = CHR ''R'' then tone = 0 else 1 \<le> tone \<and> tone \<le> 12"
proof -
  have "untouched c c1 \<and> error c1 = error c
        \<and> (if ch = CHR ''R'' then tone = 0 else 1 \<le> tone \<and> tone \<le> 12)"
  proof (cases "ch = CHR ''R''")
    case True
    with nt show ?thesis by (simp add: note_tone_def)
  next
    case False
    with nt obtain t0 where n: "notename_to_tonenum ch = Some t0"
      by (cases "notename_to_tonenum ch") (simp_all add: note_tone_def)
    obtain t a where a: "note_accidental c t0 = (t, a)" by (cases "note_accidental c t0")
    have ua: "untouched c a" using untouched_note_accidental [OF untouched_refl, of c t0]
      by (simp add: a)
    have ea: "error a = error c" using error_note_accidental [of c t0] by (simp add: a)
    have ra: "1 \<le> t" "t \<le> 12" using note_accidental_range [of c t0] by (simp_all add: a)
    have ka: "- 12 \<le> key_shift a" "key_shift a \<le> 12"
      using ua k by (simp_all add: untouched_def)
    from nt False have s: "note_key_shift a t oct = (Some (tone, octave1), c1)"
      by (simp add: note_tone_def n a)
    from note_key_shift_Some [OF s ra ka] ua ea False show ?thesis by simp
  qed
  then show "untouched c c1" and "error c1 = error c"
    and "if ch = CHR ''R'' then tone = 0 else 1 \<le> tone \<and> tone \<le> 12"
    by simp_all
qed

lemma error_set_error_not_OK: "e \<noteq> MML_OK \<Longrightarrow> error (set_error c e) \<noteq> MML_OK"
  by (simp add: set_error_def)

lemma emit_byte_OK:
  "error (emit_byte c v) = MML_OK \<Longrightarrow> error c = MML_OK \<and> out_len c < out_cap c"
  by (auto simp: emit_byte_def ensure_space_def set_error_def split: if_splits)

lemma emit_word_le_OK:
  "error (emit_word_le c v) = MML_OK \<Longrightarrow> error c = MML_OK \<and> out_len c + 2 \<le> out_cap c"
  by (auto simp: emit_word_le_def ensure_space_def set_error_def split: if_splits)

lemma emit_octave_OK:
  "error (emit_octave c n) = MML_OK \<Longrightarrow>
     error c = MML_OK \<and> 1 \<le> n \<and> n \<le> 8 \<and> out_len c < out_cap c"
  by (auto simp: emit_octave_def emit_byte_def ensure_space_def set_error_def split: if_splits)

lemma emit_note_OK_bytes:
  assumes ok: "error (emit_note c tone octave1 len96 tie) = MML_OK"
  shows "emitted (emit_note c tone octave1 len96 tie) =
           emitted c
           @ (if octave_last c \<noteq> octave1 then [0x80 + of_int octave1] else [])
           @ [make_note_header c tone len96 tie]
           @ (if len96 = l_len96 c \<or> len96 = lp_len96 c then []
              else if len96 \<le> 255 then [of_int len96]
              else [ucast ((of_int len96 :: 16 word) AND 0xFF),
                    ucast (drop_bit 8 (of_int len96 :: 16 word))])"
proof -
  define c1 where "c1 = (if octave_last c \<noteq> octave1 then emit_octave c octave1 else c)"
  define c2 where "c2 = emit_byte c1 (make_note_header c1 tone len96 tie)"
  have c1f: "out_cap c1 = out_cap c" "l_len96 c1 = l_len96 c" "lp_len96 c1 = lp_len96 c"
    by (simp_all add: c1_def)
  have c2f: "out_cap c2 = out_cap c" "l_len96 c2 = l_len96 c" "lp_len96 c2 = lp_len96 c"
    by (simp_all add: c2_def c1f)
  have h: "make_note_header c1 tone len96 tie = make_note_header c tone len96 tie"
    by (rule make_note_header_cong) (rule c1f)+
  have r: "emit_note c tone octave1 len96 tie =
          (if len96 \<noteq> l_len96 c \<and> len96 \<noteq> lp_len96 c
           then if len96 \<le> 255 then emit_byte c2 (of_int len96)
                else emit_word_le c2 (of_int len96)
           else c2)"
    by (simp add: emit_note_def Let_def c1_def c2_def)
  have ok2: "error c2 = MML_OK"
    and room2: "len96 \<noteq> l_len96 c \<and> len96 \<noteq> lp_len96 c \<Longrightarrow>
                  (if len96 \<le> 255 then out_len c2 < out_cap c2
                   else out_len c2 + 2 \<le> out_cap c2)"
    using ok emit_byte_OK [of c2 "of_int len96"] emit_word_le_OK [of c2 "of_int len96"]
    by (auto simp: r split: if_splits)
  from ok2 have ok1: "error c1 = MML_OK" and room1: "out_len c1 < out_cap c1"
    using emit_byte_OK [of c1 "make_note_header c1 tone len96 tie"] by (simp_all add: c2_def)
  have c1e: "emitted c1 =
               emitted c @ (if octave_last c \<noteq> octave1 then [0x80 + of_int octave1] else [])"
  proof (cases "octave_last c \<noteq> octave1")
    case True
    then have "error (emit_octave c octave1) = MML_OK" using ok1 by (simp add: c1_def)
    from emit_octave_OK [OF this] True show ?thesis
      by (simp add: c1_def emit_octave_bytes(1))
  next
    case False
    then show ?thesis by (simp add: c1_def)
  qed
  have c2e: "emitted c2 = emitted c1 @ [make_note_header c tone len96 tie]"
    by (simp add: c2_def h emitted_emit_byte [OF room1])
  show ?thesis
  proof (cases "len96 \<noteq> l_len96 c \<and> len96 \<noteq> lp_len96 c")
    case False
    then show ?thesis using r c2e c1e by auto
  next
    case True
    show ?thesis
    proof (cases "len96 \<le> 255")
      case True
      with room2 \<open>len96 \<noteq> l_len96 c \<and> len96 \<noteq> lp_len96 c\<close>
      have "out_len c2 < out_cap c2" by simp
      from emitted_emit_byte [OF this] True \<open>len96 \<noteq> l_len96 c \<and> len96 \<noteq> lp_len96 c\<close>
      show ?thesis by (simp add: r c2e c1e)
    next
      case False
      with room2 \<open>len96 \<noteq> l_len96 c \<and> len96 \<noteq> lp_len96 c\<close>
      have "out_len c2 + 2 \<le> out_cap c2" by simp
      from emitted_emit_word_le [OF this] False \<open>len96 \<noteq> l_len96 c \<and> len96 \<noteq> lp_len96 c\<close>
      show ?thesis by (simp add: r c2e c1e)
    qed
  qed
qed

lemma emitted_untouched:
  "untouched c0 c \<Longrightarrow> emitted c = emitted c0"
  by (simp add: untouched_def emitted_def)

lemma make_note_header_untouched:
  "untouched c0 c \<Longrightarrow> make_note_header c tone len96 tie = make_note_header c0 tone len96 tie"
  by (simp add: untouched_def make_note_header_def)

lemma compile_note_bytes:
  assumes nt: "note_tone (c\<lparr>error_col := col c\<rparr>) (toupper note) (octave c)
                 = (Some (tone, octave1), c1)"
    and pl: "parse_length_96 (c1\<lparr>error_col := NOERROR\<rparr>) = (Some (L, flag), c2)"
    and k: "- 12 \<le> key_shift c" "key_shift c \<le> 12"
    and ok: "error (compile_note c note) = MML_OK"
  shows "(if toupper note = CHR ''R'' then tone = 0 else 1 \<le> tone \<and> tone \<le> 12)
     \<and> emitted (compile_note c note) =
           emitted c
           @ (if octave_last c \<noteq> octave1 then [0x80 + of_int octave1] else [])
           @ [make_note_header c tone L (peek (skip_space c2) = Some CHR ''&'')]
           @ (if L = l_len96 c \<or> L = lp_len96 c then []
              else if L \<le> 255 then [of_int L]
              else [ucast ((of_int L :: 16 word) AND 0xFF),
                    ucast (drop_bit 8 (of_int L :: 16 word))])"
proof -
  define c0 where "c0 = c\<lparr>error_col := col c\<rparr>"
  have k0: "- 12 \<le> key_shift c0" "key_shift c0 \<le> 12" using k by (simp_all add: c0_def)
  have u0: "untouched c c0" by (simp add: c0_def)
  note t = note_tone_Some [OF nt [folded c0_def] k0]
  have u1: "untouched c (c1\<lparr>error_col := NOERROR\<rparr>)"
    using t(1) u0 by (simp add: untouched_def)
  have u2: "untouched c c2"
    using untouched_parse_length_96 [OF u1] by (simp add: pl)
  define c3 where "c3 = skip_space c2"
  define tie where "tie = (peek c3 = Some CHR ''&'')"
  define c4 where "c4 = (if tie then snd (get c3) else c3)"
  have u4: "untouched c c4" using u2 by (simp add: c4_def c3_def)
  have fl: "flag AND PARA_F_PLUS = 0 \<and> flag AND PARA_F_MINUS = 0"
    and cn: "compile_note c note = emit_note c4 tone octave1 L tie"
    using ok error_set_error_not_OK [of MML_ERR_FUNC_RANGE c2]
    by (auto simp: compile_note_def nt pl Let_def c4_def c3_def tie_def split: if_splits)
  from ok have ok4: "error (emit_note c4 tone octave1 L tie) = MML_OK" by (simp add: cn)
  have f4: "octave_last c4 = octave_last c" "l_len96 c4 = l_len96 c" "lp_len96 c4 = lp_len96 c"
    using u4 by (simp_all add: untouched_def)
  show ?thesis
    using t(3) emit_note_OK_bytes [OF ok4]
    by (simp add: cn f4 emitted_untouched [OF u4] make_note_header_untouched [OF u4]
        tie_def c3_def)
qed

text \<open>
  The two length bytes, read low byte first, are the length modulo 65536.
\<close>

lemma length_bytes_value:
  "uint (ucast ((of_int L :: 16 word) AND 0xFF) :: 8 word)
     + 256 * uint (ucast (drop_bit 8 (of_int L :: 16 word)) :: 8 word) = L mod 65536"
proof -
  define v where "v = (of_int L :: 16 word)"
  have m: "(0xFF :: 16 word) = mask 8" by (simp add: mask_eq_exp_minus_1)
  have v: "0 \<le> uint v" "uint v < 65536" using uint_lt2p [of v] by simp_all
  have a: "uint (ucast (v AND 0xFF) :: 8 word) = uint v mod 256"
    unfolding m
    by (simp add: unsigned_ucast_eq take_bit_eq_mod uint_mod flip: take_bit_eq_mask)
  have "0 \<le> uint v div 256" "uint v div 256 < 256" using v by (simp_all add: pos_imp_zdiv_nonneg_iff)
  then have b: "uint (ucast (drop_bit 8 v) :: 8 word) = uint v div 256"
    by (simp add: unsigned_ucast_eq drop_bit_eq_div take_bit_eq_mod uint_div)
  have "uint v = L mod 65536" by (simp add: v_def uint_word_of_int)
  with a b show ?thesis unfolding v_def [symmetric] by simp
qed

text \<open>
  C8. The header byte and the number of length bytes are as stated for every note
  and rest compiled without error (\<open>compile_note_bytes\<close> with
  \<open>note_header_low_nibble\<close> and \<open>note_header_length_bits\<close>), but the two length
  bytes of the case 11 are those of \<open>(uint16_t)len96\<close>, the length modulo 65536
  (\<open>length_bytes_value\<close>), and nothing bounds a length built with \<open>^\<close>. After the
  line \<open>L%254\<close>, the note \<open>c\<close> followed by 173 dots joined by 172 \<open>^\<close> (a line of
  346 characters, as \<open>main\<close> can read it) resolves to L = 173 * 381 = 65913 ticks.
  The line compiles without error and appends \<open>31 79 01\<close> to the \<open>F9 FE\<close> of the
  first line: the header announces two length bytes, and they read 0x0179 = 377
  ticks, not 65913.
\<close>

theorem long_note_length_bytes_truncated:
  "fst (parse_length_96
         ((snd (mml_compile_line (mml_channel_init blank_buffer CH_BUF_SIZE) ''L%254'' 1))
            \<lparr>src := CHR ''c'' # CHR ''.'' # concat (replicate 172 ''^.''),
             pos := 1, len := 346, line := 2, col := 2\<rparr>))
   = Some (65913, PARA_F_NOVALUE)
   \<and> fst (mml_compile_line
        (snd (mml_compile_line (mml_channel_init blank_buffer CH_BUF_SIZE) ''L%254'' 1))
        (CHR ''c'' # CHR ''.'' # concat (replicate 172 ''^.'')) 2) = MML_OK
   \<and> emitted (snd (mml_compile_line
        (snd (mml_compile_line (mml_channel_init blank_buffer CH_BUF_SIZE) ''L%254'' 1))
        (CHR ''c'' # CHR ''.'' # concat (replicate 172 ''^.'')) 2))
     = [0xF9, 0xFE, 0x31, 0x79, 0x01]"
proof -
  define cL where
    "cL = snd (mml_compile_line (mml_channel_init blank_buffer CH_BUF_SIZE) ''L%254'' 1)"
  define w where "w = CHR ''.'' # concat (replicate 172 ''^.'')"
  have cL: "l_len96 cL = 254" "lp_len96 cL = 192" "out_len cL = 2" "out_cap cL = 32768"
    "octave cL = 4" "octave_last cL = 4" "key_shift cL = 0"
    "out cL 0 = 0xF9" "out cL (Suc 0) = 0xFE"
    unfolding cL_def
    by (simp_all add: mml_compile_line_def mml_channel_init_def compile_loop.simps
        scanner_eval emitter_eval length_eval statement_eval upt_rec Let_def)
  define s0 where
    "s0 = cL\<lparr>src := CHR ''c'' # w, len := length (CHR ''c'' # w), pos := 0, line := 2,
               col := 1, error := MML_OK, error_col := NOERROR\<rparr>"
  have n: "length w = 345" by (simp add: w_def length_concat sum_list_replicate)
  have f0: "l_len96 s0 = 254" "lp_len96 s0 = 192" "out_len s0 = 2" "out_cap s0 = 32768"
    "octave s0 = 4" "octave_last s0 = 4" "key_shift s0 = 0" "error s0 = MML_OK"
    "out s0 = out cL" "pos s0 = 0" "len s0 = 346"
    by (simp_all add: s0_def cL n)
  have r0: "reads s0 (CHR ''c'' # w)" by (simp add: reads_def s0_def)
  have pk0: "peek s0 = Some CHR ''c''" by (rule reads_Cons_peek [OF r0])
  have sk0: "skip_space s0 = s0" by (rule skip_space_none) (simp_all add: pk0)
  define s1 where "s1 = snd (get s0)"
  have r1: "reads s1 w" unfolding s1_def by (rule reads_Cons_get [OF r0])
  have u1: "untouched s0 s1" unfolding s1_def by simp
  have e1: "error s1 = MML_OK" by (simp add: s1_def f0)
  have st: "compile_statement s0 = compile_note s1 (CHR ''C'')"
    by (simp add: compile_statement_def sk0 pk0 s1_def toupper_def Let_def)
  define s2 where "s2 = s1\<lparr>error_col := col s1\<rparr>"
  have r2: "reads s2 w" using r1 by (simp add: s2_def)
  have pk2: "peek s2 = Some CHR ''.''" using r2 unfolding w_def by (rule reads_Cons_peek)
  have sk2: "skip_space s2 = s2" by (rule skip_space_none) (simp_all add: pk2)
  have u2: "untouched s0 s2" using u1 by (simp add: s2_def)
  have k2: "key_shift s2 = 0" "octave s1 = 4"
    using u1 u2 f0 by (simp_all add: untouched_def)
  have up: "toupper (CHR ''C'') = CHR ''C''" by (simp add: toupper_def)
  have nt: "note_tone s2 (CHR ''C'') 4 = (Some (1, 4), s2)"
    by (simp add: note_tone_def notename_to_tonenum_def note_accidental_def note_key_shift_def
        up sk2 pk2 k2 Let_def)
  define s3 where "s3 = s2\<lparr>error_col := NOERROR\<rparr>"
  have r3: "reads s3 (CHR ''.'' # concat (replicate 172 ''^.''))"
    using r2 by (simp add: s3_def w_def)
  have u3: "untouched s0 s3" using u2 by (simp add: s3_def)
  have l3: "l_len96 s3 = 254" using u3 f0 by (simp add: untouched_def)
  have e3: "error s3 = MML_OK" by (simp add: s3_def s2_def e1)
  from dotted_default_chain [OF r3 l3] obtain c3
    where pl: "parse_length_96 s3 = (Some (65913, PARA_F_NOVALUE), c3)" and r4: "reads c3 []"
    by auto
  have u4: "untouched s0 c3"
    using untouched_parse_length_96 [OF u3] by (simp add: pl)
  have e4: "error c3 = MML_OK"
    using error_parse_length_96_Some [of s3 "(65913, PARA_F_NOVALUE)"] by (simp add: pl e3)
  have pk4: "peek c3 = None" by (rule reads_Nil [OF r4])
  have sk4: "skip_space c3 = c3" by (rule skip_space_none) (simp_all add: pk4)
  have f4: "l_len96 c3 = 254" "lp_len96 c3 = 192" "out_len c3 = 2" "out_cap c3 = 32768"
    "octave_last c3 = 4" "out c3 = out cL"
    using u4 f0 by (simp_all add: untouched_def)
  define r where "r = emit_note c3 1 4 65913 False"
  have cn: "compile_note s1 (CHR ''C'') = r"
    by (simp add: compile_note_def up k2 s2_def [symmetric] nt s3_def [symmetric] pl sk4 pk4
        PARA_F_NOVALUE_def PARA_F_PLUS_def PARA_F_MINUS_def r_def)
  have er: "error r = MML_OK"
    unfolding r_def using error_emit_note_room [of c3 4 1 65913 False] by (simp add: f4 e4)
  have pr: "len r \<le> pos r"
    unfolding r_def using reads_Nil_pos [OF r4] by simp
  have em4: "emitted c3 = [0xF9, 0xFE]"
    by (simp add: emitted_def f4 cL upt_rec)
  have em: "emitted r = [0xF9, 0xFE, 0x31, 0x79, 0x01]"
    unfolding r_def using emit_note_bytes [of 4 c3 1 65913 False]
    by (simp add: f4 em4 make_note_header_def)
  have "compile_loop s0 = compile_loop r"
    by (subst compile_loop.simps) (simp add: f0 st cn)
  also have "\<dots> = r"
    using pr by (subst compile_loop.simps) simp
  finally have lp: "compile_loop s0 = r" .
  have whole: "mml_compile_line cL (CHR ''c'' # w) 2 = (MML_OK, r)"
    by (simp add: mml_compile_line_def s0_def [symmetric] lp er del: length_Cons list.size)
  have r5: "reads (cL\<lparr>src := CHR ''c'' # w, pos := 1, len := 346, line := 2, col := 2\<rparr>)
              (CHR ''.'' # concat (replicate 172 ''^.''))"
    using n by (simp add: reads_def w_def)
  have l5: "l_len96 (cL\<lparr>src := CHR ''c'' # w, pos := 1, len := 346, line := 2, col := 2\<rparr>)
              = 254"
    by (simp add: cL)
  from dotted_default_chain [OF r5 l5]
  have "fst (parse_length_96
               (cL\<lparr>src := CHR ''c'' # w, pos := 1, len := 346, line := 2, col := 2\<rparr>))
          = Some (65913, PARA_F_NOVALUE)"
    by auto
  then show ?thesis
    using whole em by (simp add: cL_def w_def)
qed

text \<open>
  C9. The three address words are as the claim says (as 16-bit values, low byte
  first), but the two bytes at offset 6 are never written: the file holds there
  whatever the block returned by \<open>malloc\<close> held. With three channels that hold only
  the end mark, base address 0 and a block of stale \<open>AA\<close> bytes, the file is
  \<open>08 00 09 00 0A 00 AA AA FF FF FF\<close>.
\<close>

theorem object_header_unused_bytes_not_zeroed:
  "object_file 0 stale_block silent_channel silent_channel silent_channel
   = Some [0x08, 0x00, 0x09, 0x00, 0x0A, 0x00, 0xAA, 0xAA, 0xFF, 0xFF, 0xFF]"
  by (simp add: object_eval emitter_eval mml_finish_channel_def mml_channel_init_def
        CH_BUF_SIZE_def Let_def upt_rec)


text \<open>
  C3. The resolver checks the range [1, 32767] in \<open>apply_dots\<close> only, on one dotted
  length; the sum built by \<open>^\<close> is returned unchecked. After the line \<open>L%254\<close>,
  which sets the default length to 254 ticks, the note \<open>c\<close> followed by 87 dots
  joined by 86 \<open>^\<close> (a line of 174 characters, as \<open>main\<close> can read it) is accepted
  with a total of 87 * 381 = 33147 ticks, above 32767. The state below is the one in
  which \<open>compile_note\<close> calls the resolver on that second line.
\<close>

theorem caret_sum_exceeds_range:
  "fst (parse_length_96
         ((snd (mml_compile_line (mml_channel_init blank_buffer CH_BUF_SIZE) ''L%254'' 1))
            \<lparr>src := CHR ''c'' # CHR ''.'' # concat (replicate 86 ''^.''),
             pos := 1, len := 174, line := 2, col := 2\<rparr>))
   = Some (33147, PARA_F_NOVALUE)"
proof -
  let ?c = "(snd (mml_compile_line (mml_channel_init blank_buffer CH_BUF_SIZE) ''L%254'' 1))
              \<lparr>src := CHR ''c'' # CHR ''.'' # concat (replicate 86 ''^.''),
               pos := 1, len := 174, line := 2, col := 2\<rparr>"
  have n: "length (concat (replicate 86 ''^.'')) = 172"
    by (simp add: length_concat sum_list_replicate)
  have r: "reads ?c (CHR ''.'' # concat (replicate 86 ''^.''))"
    by (simp add: reads_def n)
  have "l_len96 (snd (mml_compile_line (mml_channel_init blank_buffer CH_BUF_SIZE) ''L%254'' 1))
          = 254"
    by (simp add: scanner_eval emitter_eval length_eval statement_eval)
  then have l: "l_len96 ?c = 254" by simp
  from dotted_default_chain [OF r l] show ?thesis by auto
qed
end
